theory Spec2Isabelle
  imports Main "HOL-Library.Word"
begin

unbundle bit_operations_syntax

section \<open>Data model\<close>

text \<open>
  The driver \<^verbatim>\<open>src/src/nt3h2111.c\<close> talks to an NT3H2111 NFC EEPROM over I2C in pages of
  16 bytes.  C integers are modelled at their declared width: \<^verbatim>\<open>uint8_t\<close> is \<open>8 word\<close>,
  \<^verbatim>\<open>uint16_t\<close> is \<open>16 word\<close>, \<^verbatim>\<open>uint32_t\<close> is \<open>32 word\<close>, \<^verbatim>\<open>uint64_t\<close> is \<open>64 word\<close>.
  A \<^verbatim>\<open>size_t\<close> is a \<open>nat\<close>: every \<^verbatim>\<open>size_t\<close> of the driver stays below 65536, so its 32-bit
  wrap-around is never reached.  \<^verbatim>\<open>esp_err_t\<close> is C's \<^verbatim>\<open>int\<close>; the driver only compares it
  with zero and passes it on, so it is an \<open>int\<close> here.
\<close>

type_synonym byte = "8 word"
type_synonym esp_err_t = int

text \<open>The error codes of ESP-IDF's \<^verbatim>\<open>esp_err.h\<close> that the driver returns.\<close>

definition ESP_OK :: esp_err_t where "ESP_OK = 0"
definition ESP_FAIL :: esp_err_t where "ESP_FAIL = - 1"
definition ESP_ERR_NO_MEM :: esp_err_t where "ESP_ERR_NO_MEM = 0x101"
definition ESP_ERR_INVALID_ARG :: esp_err_t where "ESP_ERR_INVALID_ARG = 0x102"
definition ESP_ERR_NOT_FOUND :: esp_err_t where "ESP_ERR_NOT_FOUND = 0x105"

text \<open>The two sizes of \<^verbatim>\<open>include/nt3h2111.h\<close>.\<close>

definition NT3H2111_USERDATA_LEN :: nat where "NT3H2111_USERDATA_LEN = 884"
definition NT3H2111_SRAM_LEN :: nat where "NT3H2111_SRAM_LEN = 64"

subsection \<open>The world outside the driver\<close>

text \<open>
  The I2C transport (\<^verbatim>\<open>i2c_read_reg\<close>, \<^verbatim>\<open>i2c_write_reg_n\<close> of the component
  \<^verbatim>\<open>managed_i2c\<close>), the clock (\<^verbatim>\<open>esp_timer_get_time\<close>), \<^verbatim>\<open>sched_yield\<close> and \<^verbatim>\<open>malloc\<close> are
  not part of the driver.  They are modelled by one explicit state:
  \<^item> \<open>pages\<close>: the chip's memory as the bus shows it, one 16-byte list per 8-bit register
    (page) number;
  \<^item> \<open>faults\<close>: the result code of the k-th bus transaction (\<open>0\<close> is success), which makes
    every pattern of bus failures expressible;
  \<^item> \<open>trace\<close>: the bus transactions issued so far, each with the time it started and the time
    it ended;
  \<^item> \<open>now\<close>: the microsecond clock; \<open>bus_us\<close> is the duration of one bus transaction and
    \<open>yield_us + 1\<close> the duration of one \<^verbatim>\<open>sched_yield\<close>; all other code takes no time;
  \<^item> \<open>last_write_time\<close>: the driver's only static variable;
  \<^item> \<open>stack_junk\<close>, \<open>heap_junk\<close>: the contents of uninitialised automatic and allocated
    storage; \<open>malloc_ok\<close>: which allocation sizes \<^verbatim>\<open>malloc\<close> grants;
  \<^item> \<open>wide_shift\<close>: what the target computes for \<^verbatim>\<open>b << n\<close> on a 32-bit \<^verbatim>\<open>int\<close> when
    \<open>n \<ge> 32\<close>, which C leaves undefined.
  A failed transaction changes neither the chip's memory nor the caller's buffer.
  The device handle (bus number and address) is fixed: the world is the bus as seen through
  one handle.
\<close>

datatype bus_op = BusRead byte | BusWrite byte "byte list"

type_synonym bus_event = "bus_op \<times> int \<times> int"

record world =
  pages :: "byte \<Rightarrow> byte list"
  faults :: "nat \<Rightarrow> esp_err_t"
  trace :: "bus_event list"
  now :: int
  bus_us :: nat
  yield_us :: nat
  last_write_time :: int
  stack_junk :: "nat \<Rightarrow> byte"
  heap_junk :: "nat \<Rightarrow> byte"
  malloc_ok :: "nat \<Rightarrow> bool"
  wide_shift :: "byte \<Rightarrow> nat \<Rightarrow> 32 word"

definition esp_timer_get_time :: "world \<Rightarrow> int" where
  "esp_timer_get_time w = now w"

definition sched_yield :: "world \<Rightarrow> world" where
  "sched_yield w = w\<lparr>now := now w + 1 + int (yield_us w)\<rparr>"

definition i2c_read_reg :: "world \<Rightarrow> byte \<Rightarrow> (esp_err_t + byte list) \<times> world" where
  "i2c_read_reg w reg =
     (let e = faults w (length (trace w));
          t = now w + int (bus_us w);
          w' = w\<lparr>trace := trace w @ [(BusRead reg, now w, t)], now := t\<rparr>
      in (if e = ESP_OK then Inr (pages w reg) else Inl e, w'))"

definition i2c_write_reg_n :: "world \<Rightarrow> byte \<Rightarrow> byte list \<Rightarrow> esp_err_t \<times> world" where
  "i2c_write_reg_n w reg data =
     (let e = faults w (length (trace w));
          t = now w + int (bus_us w);
          w' = w\<lparr>trace := trace w @ [(BusWrite reg data, now w, t)], now := t\<rparr>
      in (e, if e = ESP_OK then w'\<lparr>pages := (pages w)(reg := data)\<rparr> else w'))"

text \<open>An uninitialised local array of \<open>n\<close> bytes, and \<^verbatim>\<open>malloc(n)\<close>.\<close>

definition uninit :: "world \<Rightarrow> nat \<Rightarrow> byte list" where
  "uninit w n = map (stack_junk w) [0..<n]"

definition malloc :: "world \<Rightarrow> nat \<Rightarrow> byte list option" where
  "malloc w n = (if malloc_ok w n then Some (map (heap_junk w) [0..<n]) else None)"

text \<open>
  \<^verbatim>\<open>memcpy(dst + d, src + s, n)\<close> on buffers held as lists.  The driver never copies past
  the end of a buffer that is as long as its length argument says.
\<close>

definition memcpy :: "byte list \<Rightarrow> nat \<Rightarrow> byte list \<Rightarrow> nat \<Rightarrow> nat \<Rightarrow> byte list" where
  "memcpy dst d src s n = take d dst @ take n (drop s src) @ drop (d + n) dst"

section \<open>Page transport\<close>

text \<open>
  The loop \<^verbatim>\<open>while (last_write_time + 5000 > esp_timer_get_time()) sched_yield();\<close>
  that opens both page operations.
\<close>

function wait_eeprom :: "world \<Rightarrow> world" where
  "wait_eeprom w =
     (if last_write_time w + 5000 > esp_timer_get_time w then wait_eeprom (sched_yield w) else w)"
  by pat_completeness auto
termination
  by (relation "measure (\<lambda>w. nat (last_write_time w + 5000 - now w))")
     (auto simp: esp_timer_get_time_def sched_yield_def)

declare wait_eeprom.simps [simp del]

definition nt3h2111_read_page :: "world \<Rightarrow> byte \<Rightarrow> (esp_err_t + byte list) \<times> world" where
  "nt3h2111_read_page w page = i2c_read_reg (wait_eeprom w) page"

definition nt3h2111_write_page :: "world \<Rightarrow> byte \<Rightarrow> byte list \<Rightarrow> esp_err_t \<times> world" where
  "nt3h2111_write_page w page data =
     (let w1 = wait_eeprom w;
          w2 = w1\<lparr>last_write_time := esp_timer_get_time w1\<rparr>
      in i2c_write_reg_n w2 page data)"

section \<open>Raw address translator\<close>

text \<open>
  \<^verbatim>\<open>nt3h2111_read_raw\<close> after its first block: the loop over whole pages and the last,
  partial page.  \<open>pos\<close> is how far the pointer \<^verbatim>\<open>data\<close> has been advanced.  \<open>offset\<close> and
  \<open>len\<close> are \<^verbatim>\<open>uint8_t\<close>, so \<open>offset + 16\<close> wraps at 256.
\<close>

function read_raw_pages ::
  "world \<Rightarrow> byte \<Rightarrow> byte \<Rightarrow> byte list \<Rightarrow> nat \<Rightarrow> esp_err_t \<times> byte list \<times> world" where
  "read_raw_pages w offset len data pos =
     (if 16 \<le> len then
        (case nt3h2111_read_page w (offset div 16) of
           (Inl res, w1) \<Rightarrow> (res, data, w1)
         | (Inr pg, w1) \<Rightarrow>
             read_raw_pages w1 (offset + 16) (len - 16) (memcpy data pos pg 0 16) (pos + 16))
      else if len \<noteq> 0 then
        (case nt3h2111_read_page w (offset div 16) of
           (Inl res, w1) \<Rightarrow> (res, data, w1)
         | (Inr tmp, w1) \<Rightarrow> (ESP_OK, memcpy data pos tmp 0 (unat len), w1))
      else (ESP_OK, data, w))"
  by pat_completeness auto
termination
  by (relation "measure (\<lambda>(w, offset, len, data, pos). unat len)")
     (auto simp: unat_sub word_le_nat_alt)

declare read_raw_pages.simps [simp del]

definition nt3h2111_read_raw ::
  "world \<Rightarrow> byte \<Rightarrow> byte \<Rightarrow> byte list \<Rightarrow> esp_err_t \<times> byte list \<times> world" where
  "nt3h2111_read_raw w offset len data =
     (let misalign = unat (offset AND 15) in
      if misalign \<noteq> 0 then
        (let rlen = (if 16 - misalign < unat len then 16 - misalign else unat len) in
         case nt3h2111_read_page w (offset div 16) of
           (Inl res, w1) \<Rightarrow> (res, data, w1)
         | (Inr tmp, w1) \<Rightarrow>
             read_raw_pages w1 (offset + of_nat rlen) (len - of_nat rlen)
               (memcpy data 0 tmp misalign rlen) rlen)
      else read_raw_pages w offset len data 0)"

text \<open>\<^verbatim>\<open>nt3h2111_write_raw\<close> after its first block, in the same way.\<close>

function write_raw_pages ::
  "world \<Rightarrow> byte \<Rightarrow> byte \<Rightarrow> byte list \<Rightarrow> nat \<Rightarrow> esp_err_t \<times> world" where
  "write_raw_pages w offset len data pos =
     (if 16 \<le> len then
        (case nt3h2111_write_page w (offset div 16) (take 16 (drop pos data)) of
           (res, w1) \<Rightarrow>
             if res \<noteq> 0 then (res, w1)
             else write_raw_pages w1 (offset + 16) (len - 16) data (pos + 16))
      else if len \<noteq> 0 then
        (case nt3h2111_read_page w (offset div 16) of
           (Inl res, w1) \<Rightarrow> (res, w1)
         | (Inr tmp, w1) \<Rightarrow>
             (case nt3h2111_write_page w1 (offset div 16) (memcpy tmp 0 data pos (unat len)) of
                (res, w2) \<Rightarrow> if res \<noteq> 0 then (res, w2) else (ESP_OK, w2)))
      else (ESP_OK, w))"
  by pat_completeness auto
termination
  by (relation "measure (\<lambda>(w, offset, len, data, pos). unat len)")
     (auto simp: unat_sub word_le_nat_alt)

declare write_raw_pages.simps [simp del]

definition nt3h2111_write_raw ::
  "world \<Rightarrow> byte \<Rightarrow> byte \<Rightarrow> byte list \<Rightarrow> esp_err_t \<times> world" where
  "nt3h2111_write_raw w offset len data =
     (let misalign = unat (offset AND 15) in
      if misalign \<noteq> 0 then
        (let rlen = (if 16 - misalign < unat len then 16 - misalign else unat len) in
         case nt3h2111_read_page w (offset div 16) of
           (Inl res, w1) \<Rightarrow> (res, w1)
         | (Inr tmp, w1) \<Rightarrow>
             (case nt3h2111_write_page w1 (offset div 16) (memcpy tmp misalign data 0 rlen) of
                (res, w2) \<Rightarrow>
                  if res \<noteq> 0 then (res, w2)
                  else write_raw_pages w2 (offset + of_nat rlen) (len - of_nat rlen) data rlen))
      else write_raw_pages w offset len data 0)"

section \<open>Logical memory map\<close>

text \<open>
  The sum \<^verbatim>\<open>offset + len\<close> of the bounds checks is computed in \<^verbatim>\<open>int\<close> and cannot wrap.
  The argument \<^verbatim>\<open>16+offset\<close> (or \<^verbatim>\<open>248*16+offset\<close>) is an \<^verbatim>\<open>int\<close> as well, and the call
  converts it to the \<^verbatim>\<open>uint8_t offset\<close> parameter of the raw functions: \<open>of_nat\<close> into
  \<open>8 word\<close>, which keeps the low 8 bits.
\<close>

definition nt3h2111_read_user ::
  "world \<Rightarrow> 16 word \<Rightarrow> byte \<Rightarrow> byte list \<Rightarrow> esp_err_t \<times> byte list \<times> world" where
  "nt3h2111_read_user w offset len data =
     (if len = 0 then (ESP_OK, data, w)
      else if unat offset + unat len > NT3H2111_USERDATA_LEN then (ESP_ERR_INVALID_ARG, data, w)
      else nt3h2111_read_raw w (of_nat (16 + unat offset)) len data)"

definition nt3h2111_write_user ::
  "world \<Rightarrow> 16 word \<Rightarrow> byte \<Rightarrow> byte list \<Rightarrow> esp_err_t \<times> world" where
  "nt3h2111_write_user w offset len data =
     (if len = 0 then (ESP_OK, w)
      else if unat offset + unat len > NT3H2111_USERDATA_LEN then (ESP_ERR_INVALID_ARG, w)
      else nt3h2111_write_raw w (of_nat (16 + unat offset)) len data)"

definition nt3h2111_read_sram ::
  "world \<Rightarrow> byte \<Rightarrow> byte \<Rightarrow> byte list \<Rightarrow> esp_err_t \<times> byte list \<times> world" where
  "nt3h2111_read_sram w offset len data =
     (if len = 0 then (ESP_OK, data, w)
      else if unat offset + unat len > NT3H2111_SRAM_LEN then (ESP_ERR_INVALID_ARG, data, w)
      else nt3h2111_read_raw w (of_nat (248 * 16 + unat offset)) len data)"

definition nt3h2111_write_sram ::
  "world \<Rightarrow> byte \<Rightarrow> byte \<Rightarrow> byte list \<Rightarrow> esp_err_t \<times> world" where
  "nt3h2111_write_sram w offset len data =
     (if len = 0 then (ESP_OK, w)
      else if unat offset + unat len > NT3H2111_SRAM_LEN then (ESP_ERR_INVALID_ARG, w)
      else nt3h2111_write_raw w (of_nat (248 * 16 + unat offset)) len data)"

section \<open>Device metadata\<close>

text \<open>
  \<^verbatim>\<open>GEN_RW_UINT(48, uint32_t)\<close> generates \<^verbatim>\<open>read_uint48\<close> with the accumulator and the return
  type \<^verbatim>\<open>uint32_t\<close>.  In \<^verbatim>\<open>out |= ptr[i] << (i*8)\<close> the byte is promoted to a 32-bit \<^verbatim>\<open>int\<close>
  and shifted there; for \<open>i = 4\<close> and \<open>i = 5\<close> the shift count is 32 and 40, which C leaves
  undefined: the world's \<open>wide_shift\<close> says what comes out.
\<close>

definition shl_int :: "world \<Rightarrow> byte \<Rightarrow> nat \<Rightarrow> 32 word" where
  "shl_int w b n = (if n < 32 then push_bit n (ucast b) else wide_shift w b n)"

definition read_uint48 :: "world \<Rightarrow> byte list \<Rightarrow> 32 word" where
  "read_uint48 w ptr = fold (\<lambda>i out. out OR shl_int w (ptr ! i) (i * 8)) [0..<48 div 8] 0"

text \<open>\<^verbatim>\<open>*serial\<close> is a \<^verbatim>\<open>uint64_t\<close>, written only when the read succeeded.\<close>

definition nt3h2111_get_serial :: "world \<Rightarrow> esp_err_t \<times> 64 word option \<times> world" where
  "nt3h2111_get_serial w =
     (case nt3h2111_read_raw w 1 6 (uninit w 6) of
        (res, tmp, w1) \<Rightarrow>
          if res = 0 then (res, Some (ucast (read_uint48 w1 tmp)), w1) else (res, None, w1))"

section \<open>NDEF codec\<close>

text \<open>
  \<^verbatim>\<open>nt3h2111_get_ndef\<close> does not look at the result of its \<^verbatim>\<open>nt3h2111_read_page\<close>: when the
  read fails, \<^verbatim>\<open>tmp\<close> keeps its uninitialised contents.  \<^verbatim>\<open>ndef_len\<close> is a \<^verbatim>\<open>size_t\<close> and is
  converted to the \<^verbatim>\<open>uint8_t len\<close> of \<^verbatim>\<open>nt3h2111_read_user\<close>.  The result is the pair written
  to \<^verbatim>\<open>*len\<close> and \<^verbatim>\<open>*data\<close>, if any.
\<close>

definition nt3h2111_get_ndef :: "world \<Rightarrow> esp_err_t \<times> (nat \<times> byte list) option \<times> world" where
  "nt3h2111_get_ndef w =
     (case nt3h2111_read_page w 1 of
        (r, w1) \<Rightarrow>
          (let tmp = (case r of Inl e \<Rightarrow> uninit w 16 | Inr pg \<Rightarrow> pg) in
           if tmp ! 0 \<noteq> 0x03 then (ESP_ERR_NOT_FOUND, None, w1)
           else
             (let (ndef_len, offset) =
                    (if tmp ! 1 = 0xff
                     then (unat (push_bit 8 (ucast (tmp ! 2)) OR ucast (tmp ! 3) :: 32 word), 4)
                     else (unat (tmp ! 1), 2))
              in case malloc w1 ndef_len of
                   None \<Rightarrow> (ESP_ERR_NO_MEM, None, w1)
                 | Some buf \<Rightarrow>
                     (case nt3h2111_read_user w1 offset (of_nat ndef_len) buf of
                        (res, buf', w2) \<Rightarrow>
                          if res \<noteq> 0 then (res, None, w2)
                          else (ESP_OK, Some (ndef_len, buf'), w2)))))"

text \<open>
  \<^verbatim>\<open>nt3h2111_set_ndef\<close>; \<open>len\<close> is the \<^verbatim>\<open>size_t len\<close>, converted to \<^verbatim>\<open>uint8_t\<close> in the
  payload write.  The result of the payload write is assigned to \<^verbatim>\<open>res\<close> and never read;
  the result of the terminator write is dropped.
\<close>

definition nt3h2111_set_ndef :: "world \<Rightarrow> nat \<Rightarrow> byte list \<Rightarrow> esp_err_t \<times> world" where
  "nt3h2111_set_ndef w len data =
     (let tmp = [0x03, 0x00, 0x00, 0x00] in
      if len \<ge> NT3H2111_USERDATA_LEN - 4 then (ESP_ERR_NO_MEM, w)
      else
        (case (if len \<ge> 0xff
               then (let tmp = tmp[1 := 0xff, 2 := of_nat (len div 256), 3 := of_nat len]
                     in (nt3h2111_write_user w 0 4 tmp, tmp, 4))
               else (let tmp = tmp[1 := of_nat len]
                     in (nt3h2111_write_user w 0 2 tmp, tmp, 2))) of
           ((res, w1), tmp, offset) \<Rightarrow>
             if res \<noteq> 0 then (res, w1)
             else
               (case nt3h2111_write_user w1 (of_nat offset) (of_nat len) data of
                  (res, w2) \<Rightarrow>
                    (case nt3h2111_write_user w2 (of_nat (offset + len)) 1 (tmp[0 := 0xfe]) of
                       (res', w3) \<Rightarrow> (ESP_OK, w3)))))"

section \<open>Reference page store\<close>

text \<open>
  The chip's 4096-byte raw address space read directly from the page store: the byte at
  raw position \<open>a\<close> is byte \<open>a mod 16\<close> of page \<open>a div 16\<close>.
\<close>

definition raw_byte :: "world \<Rightarrow> nat \<Rightarrow> byte" where
  "raw_byte w a = pages w (of_nat (a div 16)) ! (a mod 16)"

definition raw_bytes :: "world \<Rightarrow> nat \<Rightarrow> nat \<Rightarrow> byte list" where
  "raw_bytes w a n = map (raw_byte w) [a..<a + n]"

text \<open>
  The value the device documentation gives the serial number: six bytes, least
  significant first.
\<close>

definition le48 :: "byte list \<Rightarrow> nat" where
  "le48 bs = unat (bs ! 0) + unat (bs ! 1) * 2 ^ 8 + unat (bs ! 2) * 2 ^ 16 +
             unat (bs ! 3) * 2 ^ 24 + unat (bs ! 4) * 2 ^ 32 + unat (bs ! 5) * 2 ^ 40"

text \<open>Start and end time of a recorded bus transaction.\<close>

definition ev_start :: "bus_event \<Rightarrow> int" where
  "ev_start e = fst (snd e)"

definition ev_end :: "bus_event \<Rightarrow> int" where
  "ev_end e = snd (snd e)"

section \<open>The driver on a bus that never fails\<close>

text \<open>
  When no bus transaction fails, what the driver does to the page store does not depend
  on the clock or on the trace.  The functions below are the driver's functions with the
  world reduced to its page store; the lemmas of the next section prove that the driver
  computes exactly them.  \<open>same_env\<close> relates two worlds that differ only in what the driver
  can change: page store, trace, clock and \<^verbatim>\<open>last_write_time\<close>.
\<close>

definition fault_free :: "world \<Rightarrow> bool" where
  "fault_free w = (\<forall>k. faults w k = ESP_OK)"

definition same_env :: "world \<Rightarrow> world \<Rightarrow> bool" where
  "same_env w w' =
     (faults w' = faults w \<and> bus_us w' = bus_us w \<and> yield_us w' = yield_us w \<and>
      stack_junk w' = stack_junk w \<and> heap_junk w' = heap_junk w \<and>
      malloc_ok w' = malloc_ok w \<and> wide_shift w' = wide_shift w)"

function read_raw_pages_store ::
  "(byte \<Rightarrow> byte list) \<Rightarrow> byte \<Rightarrow> byte \<Rightarrow> byte list \<Rightarrow> nat \<Rightarrow> byte list" where
  "read_raw_pages_store P offset len data pos =
     (if 16 \<le> len then
        read_raw_pages_store P (offset + 16) (len - 16)
          (memcpy data pos (P (offset div 16)) 0 16) (pos + 16)
      else if len \<noteq> 0 then memcpy data pos (P (offset div 16)) 0 (unat len)
      else data)"
  by pat_completeness auto
termination
  by (relation "measure (\<lambda>(P, offset, len, data, pos). unat len)")
     (auto simp: unat_sub word_le_nat_alt)

declare read_raw_pages_store.simps [simp del]

definition read_raw_store ::
  "(byte \<Rightarrow> byte list) \<Rightarrow> byte \<Rightarrow> byte \<Rightarrow> byte list \<Rightarrow> byte list" where
  "read_raw_store P offset len data =
     (let misalign = unat (offset AND 15) in
      if misalign \<noteq> 0 then
        (let rlen = (if 16 - misalign < unat len then 16 - misalign else unat len) in
         read_raw_pages_store P (offset + of_nat rlen) (len - of_nat rlen)
           (memcpy data 0 (P (offset div 16)) misalign rlen) rlen)
      else read_raw_pages_store P offset len data 0)"

function write_raw_pages_store ::
  "(byte \<Rightarrow> byte list) \<Rightarrow> byte \<Rightarrow> byte \<Rightarrow> byte list \<Rightarrow> nat \<Rightarrow> (byte \<Rightarrow> byte list)" where
  "write_raw_pages_store P offset len data pos =
     (if 16 \<le> len then
        write_raw_pages_store (P(offset div 16 := take 16 (drop pos data)))
          (offset + 16) (len - 16) data (pos + 16)
      else if len \<noteq> 0 then P(offset div 16 := memcpy (P (offset div 16)) 0 data pos (unat len))
      else P)"
  by pat_completeness auto
termination
  by (relation "measure (\<lambda>(P, offset, len, data, pos). unat len)")
     (auto simp: unat_sub word_le_nat_alt)

declare write_raw_pages_store.simps [simp del]

definition write_raw_store ::
  "(byte \<Rightarrow> byte list) \<Rightarrow> byte \<Rightarrow> byte \<Rightarrow> byte list \<Rightarrow> (byte \<Rightarrow> byte list)" where
  "write_raw_store P offset len data =
     (let misalign = unat (offset AND 15) in
      if misalign \<noteq> 0 then
        (let rlen = (if 16 - misalign < unat len then 16 - misalign else unat len) in
         write_raw_pages_store (P(offset div 16 := memcpy (P (offset div 16)) misalign data 0 rlen))
           (offset + of_nat rlen) (len - of_nat rlen) data rlen)
      else write_raw_pages_store P offset len data 0)"

definition read_user_store ::
  "(byte \<Rightarrow> byte list) \<Rightarrow> 16 word \<Rightarrow> byte \<Rightarrow> byte list \<Rightarrow> esp_err_t \<times> byte list" where
  "read_user_store P offset len data =
     (if len = 0 then (ESP_OK, data)
      else if unat offset + unat len > NT3H2111_USERDATA_LEN then (ESP_ERR_INVALID_ARG, data)
      else (ESP_OK, read_raw_store P (of_nat (16 + unat offset)) len data))"

definition write_user_store ::
  "(byte \<Rightarrow> byte list) \<Rightarrow> 16 word \<Rightarrow> byte \<Rightarrow> byte list \<Rightarrow> (byte \<Rightarrow> byte list)" where
  "write_user_store P offset len data =
     (if len = 0 then P
      else if unat offset + unat len > NT3H2111_USERDATA_LEN then P
      else write_raw_store P (of_nat (16 + unat offset)) len data)"

definition set_ndef_store :: "(byte \<Rightarrow> byte list) \<Rightarrow> nat \<Rightarrow> byte list \<Rightarrow> (byte \<Rightarrow> byte list)" where
  "set_ndef_store P len data =
     (if len \<ge> 0xff then
        write_user_store
          (write_user_store
             (write_user_store P 0 4 [0x03, 0xff, of_nat (len div 256), of_nat len])
             4 (of_nat len) data)
          (of_nat (4 + len)) 1 [0xfe, 0xff, of_nat (len div 256), of_nat len]
      else
        write_user_store
          (write_user_store (write_user_store P 0 2 [0x03, of_nat len, 0, 0]) 2 (of_nat len) data)
          (of_nat (2 + len)) 1 [0xfe, of_nat len, 0, 0])"

definition get_ndef_store ::
  "(byte \<Rightarrow> byte list) \<Rightarrow> (nat \<Rightarrow> byte list option) \<Rightarrow> esp_err_t \<times> (nat \<times> byte list) option" where
  "get_ndef_store P alloc =
     (let tmp = P 1 in
      if tmp ! 0 \<noteq> 0x03 then (ESP_ERR_NOT_FOUND, None)
      else
        (let (ndef_len, offset) =
               (if tmp ! 1 = 0xff
                then (unat (push_bit 8 (ucast (tmp ! 2)) OR ucast (tmp ! 3) :: 32 word), 4)
                else (unat (tmp ! 1), 2))
         in case alloc ndef_len of
              None \<Rightarrow> (ESP_ERR_NO_MEM, None)
            | Some buf \<Rightarrow>
                (case read_user_store P offset (of_nat ndef_len) buf of
                   (res, buf') \<Rightarrow>
                     if res \<noteq> 0 then (res, None) else (ESP_OK, Some (ndef_len, buf')))))"

text \<open>
  A page store is well formed when every page has 16 bytes.  \<open>byte_at\<close> is the byte at a
  raw position of a page store, as \<open>raw_byte\<close> is for a world.
\<close>

definition wf_store :: "(byte \<Rightarrow> byte list) \<Rightarrow> bool" where
  "wf_store P = (\<forall>p. length (P p) = 16)"

definition byte_at :: "(byte \<Rightarrow> byte list) \<Rightarrow> nat \<Rightarrow> byte" where
  "byte_at P a = P (of_nat (a div 16)) ! (a mod 16)"

section \<open>Worlds to run the driver on\<close>

text \<open>
  A blank chip on a bus that never fails, at time 0, with a bus transaction of 400
  microseconds and a yield of 5 milliseconds; uninitialised memory reads as zero and
  every allocation is granted.
\<close>

definition blank :: world where
  "blank = \<lparr>pages = (\<lambda>p. [0, 0, 0, 0, 0, 0, 0, 0, 0, 0, 0, 0, 0, 0, 0, 0]),
            faults = (\<lambda>k. 0), trace = [], now = 0,
            bus_us = 400, yield_us = 4999, last_write_time = 0,
            stack_junk = (\<lambda>i. 0), heap_junk = (\<lambda>i. 0), malloc_ok = (\<lambda>n. True),
            wide_shift = (\<lambda>b n. 0)\<rparr>"

text \<open>The same world with every page filled with its own page number.\<close>

definition marked :: world where
  "marked = blank\<lparr>pages := (\<lambda>p. [p, p, p, p, p, p, p, p, p, p, p, p, p, p, p, p])\<rparr>"

text \<open>The blank world with a scheduler that yields for 100 microseconds.\<close>

definition fine_grained :: world where
  "fine_grained = blank\<lparr>yield_us := 99\<rparr>"

text \<open>
  The blank world in which bus transaction number \<open>n\<close>, counted from 0, fails with
  \<open>ESP_FAIL\<close>.
\<close>

definition failing_at :: "nat \<Rightarrow> world" where
  "failing_at n = blank\<lparr>faults := (\<lambda>k. if k = n then ESP_FAIL else ESP_OK)\<rparr>"

text \<open>Stack contents left behind that happen to look like a one-byte NDEF header.\<close>

definition stale_header :: "nat \<Rightarrow> byte" where
  "stale_header i = (if i = 0 then 0x03 else if i = 1 then 0x01 else 0)"

text \<open>A chip whose page 0 starts with the bytes 04 11 22 33 44 55 66.\<close>

definition serial_chip :: world where
  "serial_chip = blank\<lparr>pages := (pages blank)
     (0 := [0x04, 0x11, 0x22, 0x33, 0x44, 0x55, 0x66, 0, 0, 0, 0, 0, 0, 0, 0, 0])\<rparr>"

text \<open>
  Two page writes issued back to back on the world with the fine-grained scheduler, and
  the world they leave.
\<close>

definition back_to_back :: world where
  "back_to_back =
     snd (nt3h2111_write_page
            (snd (nt3h2111_write_page fine_grained 1
                    [1, 1, 1, 1, 1, 1, 1, 1, 1, 1, 1, 1, 1, 1, 1, 1]))
            1 [2, 2, 2, 2, 2, 2, 2, 2, 2, 2, 2, 2, 2, 2, 2, 2])"

section \<open>Lemmas about the page transport\<close>

lemmas driver_defs =
  nt3h2111_read_raw_def nt3h2111_write_raw_def nt3h2111_read_page_def nt3h2111_write_page_def
  i2c_read_reg_def i2c_write_reg_n_def esp_timer_get_time_def sched_yield_def memcpy_def
  read_raw_pages.simps write_raw_pages.simps wait_eeprom.simps Let_def
  nt3h2111_read_user_def nt3h2111_write_user_def nt3h2111_read_sram_def nt3h2111_write_sram_def
  NT3H2111_USERDATA_LEN_def NT3H2111_SRAM_LEN_def nt3h2111_get_ndef_def nt3h2111_set_ndef_def
  nt3h2111_get_serial_def read_uint48_def shl_int_def malloc_def uninit_def
  raw_byte_def raw_bytes_def ev_start_def ev_end_def le48_def
  ESP_OK_def ESP_FAIL_def ESP_ERR_NO_MEM_def ESP_ERR_INVALID_ARG_def ESP_ERR_NOT_FOUND_def
  blank_def marked_def fine_grained_def failing_at_def stale_header_def serial_chip_def
  back_to_back_def

lemmas store_defs =
  set_ndef_store_def get_ndef_store_def write_user_store_def read_user_store_def
  write_raw_store_def read_raw_store_def write_raw_pages_store.simps read_raw_pages_store.simps
  memcpy_def NT3H2111_USERDATA_LEN_def Let_def nth_append
  ESP_OK_def ESP_ERR_NO_MEM_def ESP_ERR_INVALID_ARG_def ESP_ERR_NOT_FOUND_def

text \<open>The wait loop changes nothing but the clock, and ends 5000 microseconds or more
  after \<^verbatim>\<open>last_write_time\<close>.\<close>

lemma wait_eeprom_only_now: "wait_eeprom w = w\<lparr>now := now (wait_eeprom w)\<rparr>"
proof (induction w rule: wait_eeprom.induct)
  case (1 w)
  show ?case
  proof (cases "last_write_time w + 5000 > esp_timer_get_time w")
    case True
    have "wait_eeprom w = wait_eeprom (sched_yield w)"
      using True by (subst wait_eeprom.simps) simp
    also have "\<dots> = (sched_yield w)\<lparr>now := now (wait_eeprom (sched_yield w))\<rparr>"
      using 1 True by simp
    also have "\<dots> = w\<lparr>now := now (wait_eeprom (sched_yield w))\<rparr>"
      by (simp add: sched_yield_def)
    finally show ?thesis
      using True by (subst (2) wait_eeprom.simps) simp
  next
    case False
    then show ?thesis by (subst (1 2) wait_eeprom.simps) simp
  qed
qed

lemma wait_eeprom_elapsed: "last_write_time w + 5000 \<le> now (wait_eeprom w)"
proof (induction w rule: wait_eeprom.induct)
  case (1 w)
  show ?case
  proof (cases "last_write_time w + 5000 > esp_timer_get_time w")
    case True
    then have "wait_eeprom w = wait_eeprom (sched_yield w)"
      by (subst wait_eeprom.simps) simp
    moreover have "last_write_time (sched_yield w) = last_write_time w"
      by (simp add: sched_yield_def)
    ultimately show ?thesis using 1 True by simp
  next
    case False
    then show ?thesis by (subst wait_eeprom.simps) (simp add: esp_timer_get_time_def)
  qed
qed

lemma wait_eeprom_fields:
  "pages (wait_eeprom w) = pages w" "faults (wait_eeprom w) = faults w"
  "trace (wait_eeprom w) = trace w" "bus_us (wait_eeprom w) = bus_us w"
  "yield_us (wait_eeprom w) = yield_us w" "last_write_time (wait_eeprom w) = last_write_time w"
  "stack_junk (wait_eeprom w) = stack_junk w" "heap_junk (wait_eeprom w) = heap_junk w"
  "malloc_ok (wait_eeprom w) = malloc_ok w" "wide_shift (wait_eeprom w) = wide_shift w"
  by (subst wait_eeprom_only_now, simp)+

lemma same_env_refl: "same_env w w"
  by (simp add: same_env_def)

lemma same_env_trans: "same_env a b \<Longrightarrow> same_env b c \<Longrightarrow> same_env a c"
  by (simp add: same_env_def)

lemma same_env_fault_free: "same_env a b \<Longrightarrow> fault_free a \<Longrightarrow> fault_free b"
  by (simp add: same_env_def fault_free_def)

lemma read_page_result:
  "fst (nt3h2111_read_page w p) =
     (if faults w (length (trace w)) = ESP_OK then Inr (pages w p)
      else Inl (faults w (length (trace w))))"
  by (simp add: nt3h2111_read_page_def i2c_read_reg_def Let_def wait_eeprom_fields)

lemma read_page_world:
  "pages (snd (nt3h2111_read_page w p)) = pages w"
  "same_env w (snd (nt3h2111_read_page w p))"
  "trace (snd (nt3h2111_read_page w p)) =
     trace w @ [(BusRead p, now (wait_eeprom w), now (wait_eeprom w) + int (bus_us w))]"
  by (simp_all add: nt3h2111_read_page_def i2c_read_reg_def Let_def wait_eeprom_fields same_env_def)

lemma write_page_result:
  "fst (nt3h2111_write_page w p d) = faults w (length (trace w))"
  by (simp add: nt3h2111_write_page_def i2c_write_reg_n_def Let_def wait_eeprom_fields)

lemma write_page_world:
  "pages (snd (nt3h2111_write_page w p d)) =
     (if faults w (length (trace w)) = ESP_OK then (pages w)(p := d) else pages w)"
  "same_env w (snd (nt3h2111_write_page w p d))"
  "trace (snd (nt3h2111_write_page w p d)) =
     trace w @ [(BusWrite p d, now (wait_eeprom w), now (wait_eeprom w) + int (bus_us w))]"
  "last_write_time (snd (nt3h2111_write_page w p d)) = now (wait_eeprom w)"
  "now (snd (nt3h2111_write_page w p d)) = now (wait_eeprom w) + int (bus_us w)"
  by (simp_all add: nt3h2111_write_page_def i2c_write_reg_n_def Let_def wait_eeprom_fields
        same_env_def esp_timer_get_time_def)

section \<open>The driver computes the store functions\<close>

lemma read_raw_pages_fault_free:
  "fault_free w \<Longrightarrow>
   fst (read_raw_pages w offset len data pos) = ESP_OK \<and>
   fst (snd (read_raw_pages w offset len data pos)) =
     read_raw_pages_store (pages w) offset len data pos \<and>
   pages (snd (snd (read_raw_pages w offset len data pos))) = pages w \<and>
   same_env w (snd (snd (read_raw_pages w offset len data pos)))"
proof (induction w offset len data pos rule: read_raw_pages.induct)
  case (1 w offset len data pos)
  let ?p = "offset div 16"
  have ff: "faults w (length (trace w)) = ESP_OK"
    using 1(2) by (simp add: fault_free_def)
  obtain r w1 where rp: "nt3h2111_read_page w ?p = (r, w1)"
    by (cases "nt3h2111_read_page w ?p")
  have r: "r = Inr (pages w ?p)"
    using read_page_result[of w ?p] rp ff by simp
  have p1: "pages w1 = pages w" and e1: "same_env w w1"
    using read_page_world(1,2)[of w ?p] rp by simp_all
  have ff1: "fault_free w1"
    using e1 1(2) by (rule same_env_fault_free)
  show ?case
  proof (cases "16 \<le> len")
    case True
    let ?d = "memcpy data pos (pages w ?p) 0 16"
    have ih: "fst (read_raw_pages w1 (offset + 16) (len - 16) ?d (pos + 16)) = ESP_OK \<and>
      fst (snd (read_raw_pages w1 (offset + 16) (len - 16) ?d (pos + 16))) =
        read_raw_pages_store (pages w1) (offset + 16) (len - 16) ?d (pos + 16) \<and>
      pages (snd (snd (read_raw_pages w1 (offset + 16) (len - 16) ?d (pos + 16)))) = pages w1 \<and>
      same_env w1 (snd (snd (read_raw_pages w1 (offset + 16) (len - 16) ?d (pos + 16))))"
      using 1(1)[of r w1 "pages w ?p"] True rp r ff1 by simp
    have unf: "read_raw_pages w offset len data pos =
        read_raw_pages w1 (offset + 16) (len - 16) ?d (pos + 16)"
      using True rp r by (subst read_raw_pages.simps) simp
    have unfs: "read_raw_pages_store (pages w) offset len data pos =
        read_raw_pages_store (pages w1) (offset + 16) (len - 16) ?d (pos + 16)"
      using True p1 by (subst read_raw_pages_store.simps) simp
    show ?thesis
      using ih e1 p1 unfolding unf unfs by (auto intro: same_env_trans)
  next
    case False
    show ?thesis
    proof (cases "len = 0")
      case True
      then show ?thesis
        using False
        by (subst (1 2 3 4) read_raw_pages.simps, subst read_raw_pages_store.simps)
           (simp add: same_env_refl)
    next
      case nz: False
      have unf: "read_raw_pages w offset len data pos =
          (ESP_OK, memcpy data pos (pages w ?p) 0 (unat len), w1)"
        using False nz rp r by (subst read_raw_pages.simps) simp
      show ?thesis
        using False nz p1 e1 unfolding unf
        by (subst read_raw_pages_store.simps) simp
    qed
  qed
qed

lemma read_raw_fault_free:
  assumes "fault_free w"
  shows "fst (nt3h2111_read_raw w offset len data) = ESP_OK \<and>
         fst (snd (nt3h2111_read_raw w offset len data)) =
           read_raw_store (pages w) offset len data \<and>
         pages (snd (snd (nt3h2111_read_raw w offset len data))) = pages w \<and>
         same_env w (snd (snd (nt3h2111_read_raw w offset len data)))"
proof (cases "unat (offset AND 15) = 0")
  case True
  then show ?thesis
    using read_raw_pages_fault_free[OF assms, of offset len data 0]
    by (simp add: nt3h2111_read_raw_def read_raw_store_def)
next
  case False
  let ?p = "offset div 16"
  let ?m = "unat (offset AND 15)"
  let ?rlen = "if 16 - ?m < unat len then 16 - ?m else unat len"
  let ?d = "memcpy data 0 (pages w ?p) ?m ?rlen"
  have ff: "faults w (length (trace w)) = ESP_OK"
    using assms by (simp add: fault_free_def)
  obtain r w1 where rp: "nt3h2111_read_page w ?p = (r, w1)"
    by (cases "nt3h2111_read_page w ?p")
  have r: "r = Inr (pages w ?p)"
    using read_page_result[of w ?p] rp ff by simp
  have p1: "pages w1 = pages w" and e1: "same_env w w1"
    using read_page_world(1,2)[of w ?p] rp by simp_all
  have ff1: "fault_free w1"
    using e1 assms by (rule same_env_fault_free)
  have unf: "nt3h2111_read_raw w offset len data =
      read_raw_pages w1 (offset + of_nat ?rlen) (len - of_nat ?rlen) ?d ?rlen"
    using False rp r by (simp add: nt3h2111_read_raw_def Let_def)
  have unfs: "read_raw_store (pages w) offset len data =
      read_raw_pages_store (pages w1) (offset + of_nat ?rlen) (len - of_nat ?rlen) ?d ?rlen"
    using False p1 by (simp add: read_raw_store_def Let_def)
  show ?thesis
    using read_raw_pages_fault_free[OF ff1, of "offset + of_nat ?rlen" "len - of_nat ?rlen" ?d ?rlen]
      e1 p1 unfolding unf unfs by (auto intro: same_env_trans)
qed

lemma write_raw_pages_fault_free:
  "fault_free w \<Longrightarrow>
   fst (write_raw_pages w offset len data pos) = ESP_OK \<and>
   pages (snd (write_raw_pages w offset len data pos)) =
     write_raw_pages_store (pages w) offset len data pos \<and>
   same_env w (snd (write_raw_pages w offset len data pos))"
proof (induction w offset len data pos rule: write_raw_pages.induct)
  case (1 w offset len data pos)
  let ?p = "offset div 16"
  have ff: "faults w (length (trace w)) = ESP_OK"
    using 1(2) by (simp add: fault_free_def)
  show ?case
  proof (cases "16 \<le> len")
    case True
    let ?d = "take 16 (drop pos data)"
    obtain res w1 where wp: "nt3h2111_write_page w ?p ?d = (res, w1)"
      by (cases "nt3h2111_write_page w ?p ?d")
    have res: "res = 0"
      using write_page_result[of w ?p ?d] wp ff by (simp add: ESP_OK_def)
    have p1: "pages w1 = (pages w)(?p := ?d)"
      using write_page_world(1)[of w ?p ?d] wp ff by simp
    have e1: "same_env w w1"
      using write_page_world(2)[of w ?p ?d] wp by simp
    have ff1: "fault_free w1"
      using e1 1(2) by (rule same_env_fault_free)
    have ih: "fst (write_raw_pages w1 (offset + 16) (len - 16) data (pos + 16)) = ESP_OK \<and>
      pages (snd (write_raw_pages w1 (offset + 16) (len - 16) data (pos + 16))) =
        write_raw_pages_store (pages w1) (offset + 16) (len - 16) data (pos + 16) \<and>
      same_env w1 (snd (write_raw_pages w1 (offset + 16) (len - 16) data (pos + 16)))"
      using 1(1)[of res w1] True wp res ff1 by simp
    have unf: "write_raw_pages w offset len data pos =
        write_raw_pages w1 (offset + 16) (len - 16) data (pos + 16)"
      using True wp res by (subst write_raw_pages.simps) simp
    have unfs: "write_raw_pages_store (pages w) offset len data pos =
        write_raw_pages_store (pages w1) (offset + 16) (len - 16) data (pos + 16)"
      using True p1 by (subst write_raw_pages_store.simps) simp
    show ?thesis
      using ih e1 unfolding unf unfs by (auto intro: same_env_trans)
  next
    case False
    show ?thesis
    proof (cases "len = 0")
      case True
      then show ?thesis
        using False
        by (subst (1 2 3) write_raw_pages.simps, subst write_raw_pages_store.simps)
           (simp add: same_env_refl)
    next
      case nz: False
      obtain r w1 where rp: "nt3h2111_read_page w ?p = (r, w1)"
        by (cases "nt3h2111_read_page w ?p")
      have r: "r = Inr (pages w ?p)"
        using read_page_result[of w ?p] rp ff by simp
      have p1: "pages w1 = pages w" and e1: "same_env w w1"
        using read_page_world(1,2)[of w ?p] rp by simp_all
      have ff1: "faults w1 (length (trace w1)) = ESP_OK"
        using same_env_fault_free[OF e1 1(2)] by (simp add: fault_free_def)
      let ?d = "memcpy (pages w ?p) 0 data pos (unat len)"
      obtain res w2 where wp: "nt3h2111_write_page w1 ?p ?d = (res, w2)"
        by (cases "nt3h2111_write_page w1 ?p ?d")
      have res: "res = 0"
        using write_page_result[of w1 ?p ?d] wp ff1 by (simp add: ESP_OK_def)
      have p2: "pages w2 = (pages w)(?p := ?d)"
        using write_page_world(1)[of w1 ?p ?d] wp ff1 p1 by simp
      have e2: "same_env w w2"
        using write_page_world(2)[of w1 ?p ?d] wp e1 by (auto intro: same_env_trans)
      have unf: "write_raw_pages w offset len data pos = (ESP_OK, w2)"
        using False nz rp r wp res by (subst write_raw_pages.simps) simp
      show ?thesis
        using p2 e2 False nz unfolding unf
        by (subst write_raw_pages_store.simps) simp
    qed
  qed
qed

lemma write_raw_fault_free:
  assumes "fault_free w"
  shows "fst (nt3h2111_write_raw w offset len data) = ESP_OK \<and>
         pages (snd (nt3h2111_write_raw w offset len data)) =
           write_raw_store (pages w) offset len data \<and>
         same_env w (snd (nt3h2111_write_raw w offset len data))"
proof (cases "unat (offset AND 15) = 0")
  case True
  then show ?thesis
    using write_raw_pages_fault_free[OF assms, of offset len data 0]
    by (simp add: nt3h2111_write_raw_def write_raw_store_def)
next
  case False
  let ?p = "offset div 16"
  let ?m = "unat (offset AND 15)"
  let ?rlen = "if 16 - ?m < unat len then 16 - ?m else unat len"
  have ff: "faults w (length (trace w)) = ESP_OK"
    using assms by (simp add: fault_free_def)
  obtain r w1 where rp: "nt3h2111_read_page w ?p = (r, w1)"
    by (cases "nt3h2111_read_page w ?p")
  have r: "r = Inr (pages w ?p)"
    using read_page_result[of w ?p] rp ff by simp
  have p1: "pages w1 = pages w" and e1: "same_env w w1"
    using read_page_world(1,2)[of w ?p] rp by simp_all
  have ff1: "faults w1 (length (trace w1)) = ESP_OK"
    using same_env_fault_free[OF e1 assms] by (simp add: fault_free_def)
  let ?d = "memcpy (pages w ?p) ?m data 0 ?rlen"
  obtain res w2 where wp: "nt3h2111_write_page w1 ?p ?d = (res, w2)"
    by (cases "nt3h2111_write_page w1 ?p ?d")
  have res: "res = 0"
    using write_page_result[of w1 ?p ?d] wp ff1 by (simp add: ESP_OK_def)
  have p2: "pages w2 = (pages w)(?p := ?d)"
    using write_page_world(1)[of w1 ?p ?d] wp ff1 p1 by simp
  have e2: "same_env w w2"
    using write_page_world(2)[of w1 ?p ?d] wp e1 by (auto intro: same_env_trans)
  have ff2: "fault_free w2"
    using e2 assms by (rule same_env_fault_free)
  have unf: "nt3h2111_write_raw w offset len data =
      write_raw_pages w2 (offset + of_nat ?rlen) (len - of_nat ?rlen) data ?rlen"
    using False rp r wp res by (simp add: nt3h2111_write_raw_def Let_def)
  have unfs: "write_raw_store (pages w) offset len data =
      write_raw_pages_store (pages w2) (offset + of_nat ?rlen) (len - of_nat ?rlen) data ?rlen"
    using False p2 by (simp add: write_raw_store_def Let_def)
  show ?thesis
    using write_raw_pages_fault_free[OF ff2, of "offset + of_nat ?rlen" "len - of_nat ?rlen" data ?rlen]
      e2 unfolding unf unfs by (auto intro: same_env_trans)
qed

lemma read_user_fault_free:
  assumes "fault_free w"
  shows "fst (nt3h2111_read_user w offset len data) = fst (read_user_store (pages w) offset len data) \<and>
         fst (snd (nt3h2111_read_user w offset len data)) =
           snd (read_user_store (pages w) offset len data) \<and>
         pages (snd (snd (nt3h2111_read_user w offset len data))) = pages w \<and>
         same_env w (snd (snd (nt3h2111_read_user w offset len data)))"
  using read_raw_fault_free[OF assms, of "of_nat (16 + unat offset)" len data]
  by (simp add: nt3h2111_read_user_def read_user_store_def same_env_refl)

lemma write_user_fault_free:
  assumes "fault_free w"
  shows "fst (nt3h2111_write_user w offset len data) =
           (if len \<noteq> 0 \<and> unat offset + unat len > NT3H2111_USERDATA_LEN
            then ESP_ERR_INVALID_ARG else ESP_OK) \<and>
         pages (snd (nt3h2111_write_user w offset len data)) =
           write_user_store (pages w) offset len data \<and>
         same_env w (snd (nt3h2111_write_user w offset len data))"
  using write_raw_fault_free[OF assms, of "of_nat (16 + unat offset)" len data]
  by (simp add: nt3h2111_write_user_def write_user_store_def same_env_refl)

lemma set_ndef_fault_free:
  assumes ff: "fault_free w" and len: "len < 880"
  shows "fst (nt3h2111_set_ndef w len data) = ESP_OK \<and>
         pages (snd (nt3h2111_set_ndef w len data)) = set_ndef_store (pages w) len data \<and>
         same_env w (snd (nt3h2111_set_ndef w len data))"
proof -
  define hl :: byte where "hl = (if len \<ge> 0xff then 4 else 2)"
  define off :: nat where "off = (if len \<ge> 0xff then 4 else 2)"
  define tmp :: "byte list" where
    "tmp = (if len \<ge> 0xff then [0x03, 0xff, of_nat (len div 256), of_nat len]
            else [0x03, of_nat len, 0, 0])"
  obtain r1 w1 where h: "nt3h2111_write_user w 0 hl tmp = (r1, w1)"
    by (cases "nt3h2111_write_user w 0 hl tmp")
  have r1: "r1 = 0" and p1: "pages w1 = write_user_store (pages w) 0 hl tmp"
    and e1: "same_env w w1"
    using write_user_fault_free[OF ff, of 0 hl tmp] h
    by (auto simp: hl_def NT3H2111_USERDATA_LEN_def ESP_OK_def)
  have ff1: "fault_free w1"
    using e1 ff by (rule same_env_fault_free)
  obtain r2 w2 where b: "nt3h2111_write_user w1 (of_nat off) (of_nat len) data = (r2, w2)"
    by (cases "nt3h2111_write_user w1 (of_nat off) (of_nat len) data")
  have p2: "pages w2 = write_user_store (pages w1) (of_nat off) (of_nat len) data"
    and e2: "same_env w1 w2"
    using write_user_fault_free[OF ff1, of "of_nat off" "of_nat len" data] b by auto
  have ff2: "fault_free w2"
    using e2 ff1 by (rule same_env_fault_free)
  obtain r3 w3 where t: "nt3h2111_write_user w2 (of_nat (off + len)) 1 (tmp[0 := 0xfe]) = (r3, w3)"
    by (cases "nt3h2111_write_user w2 (of_nat (off + len)) 1 (tmp[0 := 0xfe])")
  have p3: "pages w3 = write_user_store (pages w2) (of_nat (off + len)) 1 (tmp[0 := 0xfe])"
    and e3: "same_env w2 w3"
    using write_user_fault_free[OF ff2, of "of_nat (off + len)" 1 "tmp[0 := 0xfe]"] t by auto
  have unf: "nt3h2111_set_ndef w len data = (ESP_OK, w3)"
    using len h r1 b t
    by (auto simp: nt3h2111_set_ndef_def NT3H2111_USERDATA_LEN_def hl_def off_def tmp_def Let_def
             split: if_splits)
  have "pages w3 = set_ndef_store (pages w) len data"
    unfolding p3 p2 p1 by (simp add: set_ndef_store_def hl_def off_def tmp_def)
  moreover have "same_env w w3"
    using e1 e2 e3 by (blast intro: same_env_trans)
  ultimately show ?thesis
    using unf by simp
qed

lemma get_ndef_fault_free:
  assumes "fault_free w"
  shows "fst (nt3h2111_get_ndef w) = fst (get_ndef_store (pages w) (malloc w)) \<and>
         fst (snd (nt3h2111_get_ndef w)) = snd (get_ndef_store (pages w) (malloc w))"
proof -
  have ff: "faults w (length (trace w)) = ESP_OK"
    using assms by (simp add: fault_free_def)
  obtain r w1 where rp: "nt3h2111_read_page w 1 = (r, w1)"
    by (cases "nt3h2111_read_page w 1")
  have r: "r = Inr (pages w 1)"
    using read_page_result[of w 1] rp ff by simp
  have p1: "pages w1 = pages w" and e1: "same_env w w1"
    using read_page_world(1,2)[of w 1] rp by simp_all
  have ff1: "fault_free w1"
    using e1 assms by (rule same_env_fault_free)
  have m: "malloc w1 n = malloc w n" for n
    using e1 by (simp add: malloc_def same_env_def)
  define G where "G n off =
    (case malloc w1 n of
       None \<Rightarrow> (ESP_ERR_NO_MEM, None, w1)
     | Some buf \<Rightarrow>
         (case nt3h2111_read_user w1 off (of_nat n) buf of
            (res, buf', w2) \<Rightarrow>
              if res \<noteq> 0 then (res, None, w2) else (ESP_OK, Some (n, buf'), w2)))" for n off
  define H where "H n off =
    (case malloc w n of
       None \<Rightarrow> (ESP_ERR_NO_MEM, None)
     | Some buf \<Rightarrow>
         (case read_user_store (pages w) off (of_nat n) buf of
            (res, buf') \<Rightarrow>
              if res \<noteq> 0 then (res, None) else (ESP_OK, Some (n, buf'))))" for n off
  have core: "fst (G n off) = fst (H n off) \<and> fst (snd (G n off)) = snd (H n off)" for n off
  proof (cases "malloc w n")
    case None
    then show ?thesis by (simp add: G_def H_def m)
  next
    case (Some buf)
    obtain res buf' w2 where a: "nt3h2111_read_user w1 off (of_nat n) buf = (res, buf', w2)"
      by (cases "nt3h2111_read_user w1 off (of_nat n) buf") auto
    have b: "read_user_store (pages w) off (of_nat n) buf = (res, buf')"
      using read_user_fault_free[OF ff1, of off "of_nat n" buf] a p1
      by (cases "read_user_store (pages w) off (of_nat n) buf") simp
    show ?thesis
      using Some a b by (simp add: G_def H_def m)
  qed
  have lhs: "nt3h2111_get_ndef w =
      (if pages w 1 ! 0 \<noteq> 0x03 then (ESP_ERR_NOT_FOUND, None, w1)
       else if pages w 1 ! 1 = 0xff
       then G (unat (push_bit 8 (ucast (pages w 1 ! 2)) OR ucast (pages w 1 ! 3) :: 32 word)) 4
       else G (unat (pages w 1 ! 1)) 2)"
    using rp r by (simp add: nt3h2111_get_ndef_def Let_def G_def)
  have rhs: "get_ndef_store (pages w) (malloc w) =
      (if pages w 1 ! 0 \<noteq> 0x03 then (ESP_ERR_NOT_FOUND, None)
       else if pages w 1 ! 1 = 0xff
       then H (unat (push_bit 8 (ucast (pages w 1 ! 2)) OR ucast (pages w 1 ! 3) :: 32 word)) 4
       else H (unat (pages w 1 ! 1)) 2)"
    by (simp add: get_ndef_store_def Let_def H_def)
  show ?thesis
    unfolding lhs rhs using core by simp
qed

lemma same_env_malloc: "same_env w w' \<Longrightarrow> malloc w' = malloc w"
  by (rule ext) (simp add: malloc_def same_env_def)

lemma fault_free_blank: "fault_free blank"
  by (simp add: fault_free_def blank_def ESP_OK_def)

text \<open>Encoding and then decoding on a bus that never fails, on the page store alone.\<close>

lemma ndef_roundtrip_store:
  assumes ff: "fault_free w" and len: "len < 880"
  shows "fst (nt3h2111_set_ndef w len data) = ESP_OK \<and>
         fst (nt3h2111_get_ndef (snd (nt3h2111_set_ndef w len data))) =
           fst (get_ndef_store (set_ndef_store (pages w) len data) (malloc w)) \<and>
         fst (snd (nt3h2111_get_ndef (snd (nt3h2111_set_ndef w len data)))) =
           snd (get_ndef_store (set_ndef_store (pages w) len data) (malloc w))"
proof -
  let ?w' = "snd (nt3h2111_set_ndef w len data)"
  have s: "fst (nt3h2111_set_ndef w len data) = ESP_OK"
    and p: "pages ?w' = set_ndef_store (pages w) len data" and e: "same_env w ?w'"
    using set_ndef_fault_free[OF ff len, of data] by simp_all
  have ff': "fault_free ?w'"
    using e ff by (rule same_env_fault_free)
  show ?thesis
    using s get_ndef_fault_free[OF ff'] p same_env_malloc[OF e] by simp
qed

section \<open>Small facts used by the evaluations\<close>

lemma replicate_numeral_Cons: "replicate (numeral k) x = x # replicate (pred_numeral k) x"
  by (simp add: numeral_eq_Suc)

lemma not_16_le_1: "\<not> (16::byte) \<le> 1"
  by (simp add: word_le_nat_alt)

lemma replicate_append_same:
  "replicate n x @ replicate m x = replicate (n + m) x"
  "replicate n x @ replicate m x @ ys = replicate (n + m) x @ ys"
  by (simp_all add: replicate_add)

lemma malloc_blank: "malloc blank n = Some (replicate n 0)"
  by (simp add: malloc_def blank_def map_replicate_const)

lemma ucast32_below: "unat (ucast (x :: 32 word) :: 64 word) < 2 ^ 32"
proof -
  have "unat (ucast x :: 64 word) = take_bit 64 (unat x)"
    by (simp add: unsigned_ucast_eq)
  also have "\<dots> \<le> unat x"
    by (rule take_bit_nat_less_eq_self)
  also have "unat x < 2 ^ 32"
    using unsigned_less[of x, where 'a = nat] by simp
  finally show ?thesis .
qed

text \<open>Whatever the read returns, the serial number handed back fits in 32 bits.\<close>

lemma get_serial_below:
  assumes "fst (snd (nt3h2111_get_serial w)) = Some v"
  shows "unat v < 2 ^ 32"
proof -
  obtain res tmp w1 where r: "nt3h2111_read_raw w 1 6 (uninit w 6) = (res, tmp, w1)"
    by (cases "nt3h2111_read_raw w 1 6 (uninit w 6)") auto
  have "v = ucast (read_uint48 w1 tmp)"
    using assms r by (simp add: nt3h2111_get_serial_def split: if_splits)
  then show ?thesis
    using ucast32_below[of "read_uint48 w1 tmp"] by simp
qed

text \<open>
  The bounds checks of the four region functions: a nonzero length that runs past the end
  of the region is refused, and the world is left as it was.
\<close>

lemma region_bounds_checked:
  assumes "len \<noteq> 0"
  shows "unat uoff + unat len > 884 \<Longrightarrow>
           nt3h2111_read_user w uoff len data = (ESP_ERR_INVALID_ARG, data, w) \<and>
           nt3h2111_write_user w uoff len data = (ESP_ERR_INVALID_ARG, w)"
    and "unat soff + unat len > 64 \<Longrightarrow>
           nt3h2111_read_sram w soff len data = (ESP_ERR_INVALID_ARG, data, w) \<and>
           nt3h2111_write_sram w soff len data = (ESP_ERR_INVALID_ARG, w)"
  using assms
  by (simp_all add: nt3h2111_read_user_def nt3h2111_write_user_def nt3h2111_read_sram_def
        nt3h2111_write_sram_def NT3H2111_USERDATA_LEN_def NT3H2111_SRAM_LEN_def)

text \<open>
  What \<^verbatim>\<open>nt3h2111_set_ndef\<close> returns is decided by the length check and the header write
  alone: the payload write and the terminator write have no part in it.
\<close>

lemma set_ndef_result:
  "fst (nt3h2111_set_ndef w len data) =
     (if 880 \<le> len then ESP_ERR_NO_MEM
      else if 255 \<le> len
      then fst (nt3h2111_write_user w 0 4 [0x03, 0xff, of_nat (len div 256), of_nat len])
      else fst (nt3h2111_write_user w 0 2 [0x03, of_nat len, 0, 0]))"
  by (simp add: nt3h2111_set_ndef_def NT3H2111_USERDATA_LEN_def Let_def ESP_OK_def
           split: prod.splits)

section \<open>The translator within the first 256 bytes\<close>

text \<open>
  As long as \<open>offset + len\<close> does not pass 256, the 8-bit cursor never wraps, and on a bus
  that never fails the raw functions do what is expected of them: a read returns the bytes
  of the store at \<open>offset ..< offset + len\<close>, a write changes exactly those bytes, and
  reading back returns what was written.
\<close>

lemma and15: "unat ((x::byte) AND 15) = unat x mod 16"
proof -
  have "(15::byte) = mask 4" by (simp add: mask_eq_exp_minus_1)
  then have "x AND 15 = take_bit 4 x" by (simp add: take_bit_eq_mask)
  then show ?thesis by (simp add: unsigned_take_bit_eq take_bit_eq_mod unat_mod)
qed

lemma byte_lt: "unat (x::byte) < 256"
  using unsigned_less[of x, where 'a = nat] by simp

lemma div16: "(x::byte) div 16 = of_nat (unat x div 16)"
proof -
  have "unat x div 16 < 256" using byte_lt[of x] by simp
  then show ?thesis
    by (simp add: word_unat_eq_iff unat_div unat_of_nat)
qed

lemma page_bytes:
  assumes "wf_store P" and "s mod 16 = 0"
  shows "P (of_nat (s div 16)) = map (byte_at P) [s ..< s + 16]"
proof (rule nth_equalityI)
  show "length (P (of_nat (s div 16))) = length (map (byte_at P) [s ..< s + 16])"
    using assms(1) by (simp add: wf_store_def)
next
  fix i assume "i < length (P (word_of_nat (s div 16)))"
  then have i: "i < 16" using assms(1) by (simp add: wf_store_def)
  have "(s + i) div 16 = s div 16" "(s + i) mod 16 = i"
    using assms(2) i by (auto simp: div_add1_eq mod_add_eq)
  then show "P (of_nat (s div 16)) ! i = map (byte_at P) [s ..< s + 16] ! i"
    using i by (simp add: byte_at_def)
qed

lemma read_raw_pages_store_window:
  "wf_store P \<Longrightarrow> unat offset mod 16 = 0 \<Longrightarrow> unat offset + unat len \<le> 256 \<Longrightarrow>
   pos + unat len \<le> length data \<Longrightarrow>
   read_raw_pages_store P offset len data pos =
     take pos data @ map (byte_at P) [unat offset ..< unat offset + unat len] @
     drop (pos + unat len) data"
proof (induction P offset len data pos rule: read_raw_pages_store.induct)
  case (1 P offset len data pos)
  let ?o = "unat offset" and ?n = "unat len"
  have pg: "P (offset div 16) = map (byte_at P) [?o ..< ?o + 16]"
    using page_bytes[OF 1(2) 1(3)] div16[of offset] by simp
  show ?case
  proof (cases "16 \<le> len")
    case True
    then have n16: "16 \<le> ?n"
      by (simp add: word_le_nat_alt)
    have n': "unat (len - 16) = ?n - 16"
      using True by (simp add: unat_sub)
    let ?d = "memcpy data pos (P (offset div 16)) 0 16"
    have d: "?d = take pos data @ map (byte_at P) [?o ..< ?o + 16] @ drop (pos + 16) data"
      by (simp add: memcpy_def pg)
    have o': "?n = 16 \<or> unat (offset + 16) = ?o + 16"
    proof (cases "?n = 16")
      case False
      then have "?o + 16 < 256" using 1(4) n16 by linarith
      then show ?thesis by (simp add: unat_word_ariths)
    qed simp
    have al': "unat (offset + 16) mod 16 = 0"
      using 1(3) by (simp add: unat_word_ariths mod_mod_cancel)
    have bound': "unat (offset + 16) + unat (len - 16) \<le> 256"
      using o' n' 1(4) byte_lt[of "offset + 16"] by auto
    have len': "pos + 16 + unat (len - 16) \<le> length ?d"
      using 1(5) n16 n' by (simp add: d)
    have ih: "read_raw_pages_store P (offset + 16) (len - 16) ?d (pos + 16) =
        take (pos + 16) ?d @
        map (byte_at P) [unat (offset + 16) ..< unat (offset + 16) + unat (len - 16)] @
        drop (pos + 16 + unat (len - 16)) ?d"
      using 1(1)[OF True 1(2) al' bound' len'] .
    have tk: "take (pos + 16) ?d = take pos data @ map (byte_at P) [?o ..< ?o + 16]"
      using 1(5) n16 by (simp add: d)
    have dr: "drop (pos + 16 + unat (len - 16)) ?d = drop (pos + ?n) data"
      using 1(5) n16 n' by (simp add: d add.commute)
    have rng: "map (byte_at P) [?o ..< ?o + 16] @
        map (byte_at P) [unat (offset + 16) ..< unat (offset + 16) + unat (len - 16)] =
        map (byte_at P) [?o ..< ?o + ?n]"
    proof (cases "?n = 16")
      case True
      then show ?thesis using n' by simp
    next
      case False
      then have "unat (offset + 16) = ?o + 16" using o' by simp
      moreover have "[?o ..< (?o + 16) + (?n - 16)] =
          [?o ..< ?o + 16] @ [?o + 16 ..< ?o + 16 + (?n - 16)]"
        by (rule upt_add_eq_append) simp
      moreover have "?o + 16 + (?n - 16) = ?o + ?n"
        using n16 by simp
      ultimately show ?thesis using n' by simp
    qed
    have "read_raw_pages_store P offset len data pos =
        read_raw_pages_store P (offset + 16) (len - 16) ?d (pos + 16)"
      using True by (subst read_raw_pages_store.simps) simp
    also have "\<dots> = take pos data @ (map (byte_at P) [?o ..< ?o + 16] @
        map (byte_at P) [unat (offset + 16) ..< unat (offset + 16) + unat (len - 16)]) @
        drop (pos + ?n) data"
      unfolding ih tk dr by simp
    finally show ?thesis unfolding rng .
  next
    case False
    then have n16: "?n < 16"
      by (simp add: word_le_nat_alt)
    show ?thesis
    proof (cases "len = 0")
      case True
      then show ?thesis
        by (subst read_raw_pages_store.simps) simp
    next
      case nz: False
      have "take ?n (map (byte_at P) [?o ..< ?o + 16]) = map (byte_at P) [?o ..< ?o + ?n]"
        using n16 by (simp add: take_map)
      then show ?thesis
        using False nz by (subst read_raw_pages_store.simps) (simp add: memcpy_def pg)
    qed
  qed
qed


lemma take_drop_upt: "m + r \<le> k \<Longrightarrow> take r (drop m [s ..< s + k]) = [s + m ..< s + m + r]"
  by (simp add: take_upt)

lemma read_raw_pages_store_zero: "read_raw_pages_store P offset 0 data pos = data"
  by (subst read_raw_pages_store.simps) simp

lemma read_raw_store_window:
  assumes wf: "wf_store P" and bound: "unat offset + unat len \<le> 256"
    and len: "length data = unat len"
  shows "read_raw_store P offset len data =
           map (byte_at P) [unat offset ..< unat offset + unat len]"
proof (cases "unat (offset AND 15) = 0")
  case True
  then have al: "unat offset mod 16 = 0"
    by (simp add: and15)
  show ?thesis
    using True read_raw_pages_store_window[OF wf al bound, of 0 data] len
    by (simp add: read_raw_store_def)
next
  case False
  let ?o = "unat offset" and ?n = "unat len"
  let ?m = "?o mod 16"
  let ?s = "?o - ?m"
  let ?rlen = "if 16 - ?m < ?n then 16 - ?m else ?n"
  let ?d = "memcpy data 0 (P (offset div 16)) ?m ?rlen"
  have m: "0 < ?m" "?m < 16"
    using False by (simp_all add: and15)
  have s: "?s mod 16 = 0" "?s div 16 = ?o div 16" "?s + ?m = ?o"
    using m by (auto simp: minus_mod_eq_mult_div)
  have pg: "P (offset div 16) = map (byte_at P) [?s ..< ?s + 16]"
    using page_bytes[OF wf s(1)] div16[of offset] s(2) by simp
  have rl: "?rlen \<le> 16 - ?m" "?rlen \<le> ?n"
    by simp_all
  have "take ?rlen (drop ?m [?s ..< ?s + 16]) = [?s + ?m ..< ?s + ?m + ?rlen]"
    using m by (intro take_drop_upt) auto
  then have "take ?rlen (drop ?m (map (byte_at P) [?s ..< ?s + 16])) =
      map (byte_at P) [?o ..< ?o + ?rlen]"
    unfolding s(3) by (simp only: take_map drop_map)
  then have d: "?d = map (byte_at P) [?o ..< ?o + ?rlen] @ drop ?rlen data"
    by (simp add: memcpy_def pg)
  have unf: "read_raw_store P offset len data =
      read_raw_pages_store P (offset + of_nat ?rlen) (len - of_nat ?rlen) ?d ?rlen"
    using False by (simp add: read_raw_store_def Let_def and15)
  show ?thesis
  proof (cases "16 - ?m < ?n")
    case short: False
    then have "?rlen = ?n" by simp
    then have "len - of_nat ?rlen = 0" by simp
    then have "read_raw_store P offset len data = ?d"
      unfolding unf by (simp add: read_raw_pages_store_zero)
    then show ?thesis
      using short len d by simp
  next
    case True
    define r where "r = 16 - ?m"
    have r: "?rlen = r" "r < ?n" "r < 16" "?m + r = 16"
      using True m by (simp_all add: r_def)
    have ur: "unat (of_nat r :: byte) = r"
      using r(3) by (simp add: unat_of_nat)
    have lt: "?o + r < 256"
      using r(2) bound by linarith
    have o': "unat (offset + of_nat r) = ?o + r"
      using lt by (simp add: unat_word_ariths ur)
    have le: "(of_nat r :: byte) \<le> len"
      using r(2) by (simp add: word_le_nat_alt ur)
    have n': "unat (len - of_nat r) = ?n - r"
      using le by (simp add: unat_sub ur)
    have "(?o + r) mod 16 = 0"
      using r(4) by presburger
    then have al': "unat (offset + of_nat r) mod 16 = 0"
      unfolding o' .
    have bound': "unat (offset + of_nat r) + unat (len - of_nat r) \<le> 256"
      using r(2) bound unfolding o' n' by simp
    have d': "?d = map (byte_at P) [?o ..< ?o + r] @ drop r data"
      using d r(1) by simp
    have len': "r + unat (len - of_nat r) \<le> length ?d"
      using r(2) len unfolding n' d' by simp
    have "read_raw_pages_store P (offset + of_nat r) (len - of_nat r) ?d r =
        take r ?d @ map (byte_at P) [?o + r ..< ?o + r + (?n - r)] @ drop (r + (?n - r)) ?d"
      using read_raw_pages_store_window[OF wf al' bound' len'] unfolding o' n' .
    moreover have "take r ?d = map (byte_at P) [?o ..< ?o + r]"
      unfolding d' by simp
    moreover have "drop (r + (?n - r)) ?d = []"
      using r(2) len unfolding d' by simp
    moreover have "[?o ..< ?o + r + (?n - r)] = [?o ..< ?o + r] @ [?o + r ..< ?o + r + (?n - r)]"
      by (rule upt_add_eq_append) simp
    moreover have "?o + r + (?n - r) = ?o + ?n"
      using r(2) by simp
    moreover have "read_raw_store P offset len data =
        read_raw_pages_store P (offset + of_nat r) (len - of_nat r) ?d r"
      using unf r(1) by simp
    ultimately show ?thesis
      by simp
  qed
qed


lemma wf_store_upd: "wf_store P \<Longrightarrow> length pg = 16 \<Longrightarrow> wf_store (P(k := pg))"
  by (simp add: wf_store_def)

lemma same_page_iff:
  assumes "s mod 16 = 0"
  shows "a div 16 = s div 16 \<longleftrightarrow> s \<le> a \<and> a < s + (16::nat)"
proof
  assume eq: "a div 16 = s div 16"
  have "s = 16 * (a div 16)"
    using assms eq mult_div_mod_eq[of 16 s] by simp
  then show "s \<le> a \<and> a < s + 16"
    using mult_div_mod_eq[of 16 a] mod_less_divisor[of 16 a] by linarith
next
  assume r: "s \<le> a \<and> a < s + 16"
  then obtain i where i: "a = s + i" "i < 16"
    by (metis le_Suc_ex nat_add_left_cancel_less)
  show "a div 16 = s div 16"
    using assms i by (auto simp: div_add1_eq)
qed

lemma in_page_offset:
  assumes "s mod 16 = 0" and "s \<le> a \<and> a < s + (16::nat)"
  shows "a mod 16 = a - s"
proof -
  obtain i where i: "a = s + i" "i < 16"
    using assms(2) by (metis le_Suc_ex nat_add_left_cancel_less)
  show ?thesis
    using assms(1) i by (auto simp: mod_add_eq)
qed

lemma byte_at_upd_page:
  assumes "s mod 16 = 0" and "s < 256" and "a < 4096"
  shows "byte_at (P(of_nat (s div 16) := pg)) a =
           (if s \<le> a \<and> a < s + 16 then pg ! (a - s) else byte_at P a)"
proof -
  have ua: "unat (of_nat (a div 16) :: byte) = a div 16"
    using assms(3) by (simp add: unat_of_nat)
  have us: "unat (of_nat (s div 16) :: byte) = s div 16"
    using assms(2) by (simp add: unat_of_nat)
  have inj: "(of_nat (a div 16) :: byte) = of_nat (s div 16) \<longleftrightarrow> a div 16 = s div 16"
    using ua us by metis
  show ?thesis
  proof (cases "s \<le> a \<and> a < s + 16")
    case True
    then have "(of_nat (a div 16) :: byte) = of_nat (s div 16)"
      using same_page_iff[OF assms(1), of a] by simp
    then show ?thesis
      using True in_page_offset[OF assms(1) True] by (simp add: byte_at_def)
  next
    case False
    then have "(of_nat (a div 16) :: byte) \<noteq> of_nat (s div 16)"
      using same_page_iff[OF assms(1), of a] inj by simp
    then show ?thesis
      using False by (auto simp: byte_at_def)
  qed
qed

lemma write_raw_pages_store_zero: "write_raw_pages_store P offset 0 data pos = P"
  by (subst write_raw_pages_store.simps) simp

lemma write_raw_pages_store_window:
  "wf_store P \<Longrightarrow> unat offset mod 16 = 0 \<Longrightarrow> unat offset + unat len \<le> 256 \<Longrightarrow>
   pos + unat len \<le> length data \<Longrightarrow>
   wf_store (write_raw_pages_store P offset len data pos) \<and>
   (\<forall>a<4096. byte_at (write_raw_pages_store P offset len data pos) a =
      (if unat offset \<le> a \<and> a < unat offset + unat len
       then data ! (pos + (a - unat offset)) else byte_at P a))"
proof (induction P offset len data pos rule: write_raw_pages_store.induct)
  case (1 P offset len data pos)
  let ?o = "unat offset" and ?n = "unat len"
  have ol: "?o < 256"
    by (rule byte_lt)
  have pgi: "offset div 16 = of_nat (?o div 16)"
    by (rule div16)
  show ?case
  proof (cases "16 \<le> len")
    case True
    then have n16: "16 \<le> ?n"
      by (simp add: word_le_nat_alt)
    have n': "unat (len - 16) = ?n - 16"
      using True by (simp add: unat_sub)
    let ?pg = "take 16 (drop pos data)"
    let ?P1 = "P(offset div 16 := ?pg)"
    have lpg: "length ?pg = 16"
      using 1(5) n16 by simp
    have wf1: "wf_store ?P1"
      using 1(2) lpg by (rule wf_store_upd)
    have b1: "byte_at ?P1 a =
        (if ?o \<le> a \<and> a < ?o + 16 then data ! (pos + (a - ?o)) else byte_at P a)"
      if "a < 4096" for a
    proof (cases "?o \<le> a \<and> a < ?o + 16")
      case True
      then have i: "a - ?o < 16"
        by linarith
      have "?pg ! (a - ?o) = drop pos data ! (a - ?o)"
        using i by simp
      also have "\<dots> = data ! (pos + (a - ?o))"
        using 1(5) n16 by simp
      finally show ?thesis
        using byte_at_upd_page[OF 1(3) ol that, of P ?pg] True unfolding pgi by simp
    next
      case False
      then show ?thesis
        using byte_at_upd_page[OF 1(3) ol that, of P ?pg] unfolding pgi by auto
    qed
    have o': "?n = 16 \<or> unat (offset + 16) = ?o + 16"
    proof (cases "?n = 16")
      case False
      then have "?o + 16 < 256" using 1(4) n16 by linarith
      then show ?thesis by (simp add: unat_word_ariths)
    qed simp
    have al': "unat (offset + 16) mod 16 = 0"
      using 1(3) by (simp add: unat_word_ariths mod_mod_cancel)
    have bound': "unat (offset + 16) + unat (len - 16) \<le> 256"
      using o' n' 1(4) byte_lt[of "offset + 16"] by auto
    have len': "pos + 16 + unat (len - 16) \<le> length data"
      using 1(5) n16 n' by simp
    let ?R = "write_raw_pages_store ?P1 (offset + 16) (len - 16) data (pos + 16)"
    have ih: "wf_store ?R \<and>
        (\<forall>a<4096. byte_at ?R a =
          (if unat (offset + 16) \<le> a \<and> a < unat (offset + 16) + unat (len - 16)
           then data ! (pos + 16 + (a - unat (offset + 16))) else byte_at ?P1 a))"
      using 1(1)[OF True wf1 al' bound' len'] .
    have unf: "write_raw_pages_store P offset len data pos = ?R"
      using True by (subst write_raw_pages_store.simps) simp
    have "byte_at ?R a =
        (if ?o \<le> a \<and> a < ?o + ?n then data ! (pos + (a - ?o)) else byte_at P a)"
      if a: "a < 4096" for a
    proof -
      have iha: "byte_at ?R a =
          (if unat (offset + 16) \<le> a \<and> a < unat (offset + 16) + unat (len - 16)
           then data ! (pos + 16 + (a - unat (offset + 16))) else byte_at ?P1 a)"
        using ih a by blast
      show ?thesis
      proof (cases "?n = 16")
        case True
        then have "byte_at ?R a = byte_at ?P1 a"
          using iha n' by auto
        then show ?thesis
          using b1[OF a] True by simp
      next
        case False
        then have u: "unat (offset + 16) = ?o + 16"
          using o' by simp
        show ?thesis
        proof (cases "?o + 16 \<le> a \<and> a < ?o + ?n")
          case True
          then have "byte_at ?R a = data ! (pos + 16 + (a - (?o + 16)))"
            using iha n' n16 unfolding u by simp
          moreover have "pos + 16 + (a - (?o + 16)) = pos + (a - ?o)"
            using True by linarith
          ultimately show ?thesis
            using True by simp
        next
          case False
          then have "byte_at ?R a = byte_at ?P1 a"
            using iha n' n16 unfolding u by auto
          moreover have "(?o \<le> a \<and> a < ?o + ?n) = (?o \<le> a \<and> a < ?o + 16)"
            using False n16 by linarith
          ultimately show ?thesis
            using b1[OF a] by simp
        qed
      qed
    qed
    then have "\<forall>a<4096. byte_at ?R a =
        (if ?o \<le> a \<and> a < ?o + ?n then data ! (pos + (a - ?o)) else byte_at P a)"
      by blast
    then show ?thesis
      unfolding unf using ih by blast
  next
    case False
    then have n16: "?n < 16"
      by (simp add: word_le_nat_alt)
    show ?thesis
    proof (cases "len = 0")
      case True
      then show ?thesis
        using 1(2) by (auto simp: write_raw_pages_store_zero)
    next
      case nz: False
      let ?old = "P (offset div 16)"
      let ?pg = "memcpy ?old 0 data pos ?n"
      have lold: "length ?old = 16"
        using 1(2) by (simp add: wf_store_def)
      have pg: "?pg = take ?n (drop pos data) @ drop ?n ?old"
        by (simp add: memcpy_def)
      have lpg: "length ?pg = 16"
        using 1(5) n16 lold unfolding pg by simp
      have unf: "write_raw_pages_store P offset len data pos = P(offset div 16 := ?pg)"
        using False nz by (subst write_raw_pages_store.simps) simp
      have old: "?old ! (a - ?o) = byte_at P a" if "?o \<le> a \<and> a < ?o + 16" for a
      proof -
        have "a div 16 = ?o div 16" "a mod 16 = a - ?o"
          using same_page_iff[OF 1(3), of a] in_page_offset[OF 1(3) that] that by simp_all
        then show ?thesis
          unfolding pgi by (simp add: byte_at_def)
      qed
      have "byte_at (P(offset div 16 := ?pg)) a =
          (if ?o \<le> a \<and> a < ?o + ?n then data ! (pos + (a - ?o)) else byte_at P a)"
        if a: "a < 4096" for a
      proof (cases "?o \<le> a \<and> a < ?o + 16")
        case True
        then have up: "byte_at (P(offset div 16 := ?pg)) a = ?pg ! (a - ?o)"
          using byte_at_upd_page[OF 1(3) ol a, of P ?pg] unfolding pgi by simp
        have ltd: "length (take ?n (drop pos data)) = ?n"
          using 1(5) by simp
        show ?thesis
        proof (cases "a < ?o + ?n")
          case lt: True
          then have i: "a - ?o < ?n"
            using True by linarith
          have "?pg ! (a - ?o) = take ?n (drop pos data) ! (a - ?o)"
            unfolding pg using i ltd by (simp add: nth_append)
          also have "\<dots> = drop pos data ! (a - ?o)"
            using i by simp
          also have "\<dots> = data ! (pos + (a - ?o))"
            using 1(5) by simp
          finally show ?thesis
            using up lt True by simp
        next
          case ge: False
          then have i: "?n \<le> a - ?o" "a - ?o < 16"
            using True by linarith+
          have "?pg ! (a - ?o) = drop ?n ?old ! (a - ?o - ?n)"
            unfolding pg using i ltd by (simp add: nth_append)
          also have "\<dots> = ?old ! (?n + (a - ?o - ?n))"
            using n16 lold by simp
          also have "?n + (a - ?o - ?n) = a - ?o"
            using i by simp
          finally show ?thesis
            using up ge old[OF True] by simp
        qed
      next
        case False
        then have "byte_at (P(offset div 16 := ?pg)) a = byte_at P a"
          using byte_at_upd_page[OF 1(3) ol a, of P ?pg] unfolding pgi by auto
        moreover have "\<not> (?o \<le> a \<and> a < ?o + ?n)"
          using False n16 by linarith
        ultimately show ?thesis
          by auto
      qed
      then have "\<forall>a<4096. byte_at (P(offset div 16 := ?pg)) a =
          (if ?o \<le> a \<and> a < ?o + ?n then data ! (pos + (a - ?o)) else byte_at P a)"
        by blast
      then show ?thesis
        unfolding unf using wf_store_upd[OF 1(2) lpg, of "offset div 16"] by blast
    qed
  qed
qed


lemma write_raw_store_window:
  assumes wf: "wf_store P" and bound: "unat offset + unat len \<le> 256"
    and len: "unat len \<le> length data"
  shows "wf_store (write_raw_store P offset len data) \<and>
         (\<forall>a<4096. byte_at (write_raw_store P offset len data) a =
            (if unat offset \<le> a \<and> a < unat offset + unat len
             then data ! (a - unat offset) else byte_at P a))"
proof (cases "unat (offset AND 15) = 0")
  case True
  then have al: "unat offset mod 16 = 0"
    by (simp add: and15)
  show ?thesis
    using True write_raw_pages_store_window[OF wf al bound, of 0 data] len
    by (simp add: write_raw_store_def)
next
  case False
  define ofs where "ofs = unat offset"
  define n where "n = unat len"
  define m where "m = ofs mod 16"
  define s where "s = ofs - m"
  define r where "r = (if 16 - m < n then 16 - m else n)"
  let ?old = "P (offset div 16)"
  let ?pg = "memcpy ?old m data 0 r"
  let ?P1 = "P(offset div 16 := ?pg)"
  have m: "0 < m" "m < 16"
    using False by (simp_all add: and15 m_def ofs_def)
  have s: "s mod 16 = 0" "s div 16 = ofs div 16" "s + m = ofs" "s < 256"
    using m byte_lt[of offset] unfolding s_def m_def ofs_def
    by (auto simp: minus_mod_eq_mult_div)
  have bnd: "ofs + n \<le> 256" and ln: "n \<le> length data"
    using bound len by (simp_all add: ofs_def n_def)
  have r: "m + r \<le> 16" "r \<le> n" "r \<le> length data"
    using m ln by (auto simp: r_def)
  have pgi: "offset div 16 = of_nat (s div 16)"
    using div16[of offset] s(2) by (simp add: ofs_def)
  have lold: "length ?old = 16"
    using wf by (simp add: wf_store_def)
  have pg: "?pg = take m ?old @ take r data @ drop (m + r) ?old"
    by (simp add: memcpy_def)
  have lpg: "length ?pg = 16"
    using r lold unfolding pg by simp
  have wf1: "wf_store ?P1"
    using wf lpg by (rule wf_store_upd)
  have old: "?old ! (a - s) = byte_at P a" if "s \<le> a \<and> a < s + 16" for a
  proof -
    have "a div 16 = s div 16" "a mod 16 = a - s"
      using same_page_iff[OF s(1), of a] in_page_offset[OF s(1) that] that by simp_all
    then show ?thesis
      unfolding pgi by (simp add: byte_at_def)
  qed
  have b1: "byte_at ?P1 a =
      (if ofs \<le> a \<and> a < ofs + r then data ! (a - ofs) else byte_at P a)"
    if a: "a < 4096" for a
  proof (cases "s \<le> a \<and> a < s + 16")
    case True
    then have up: "byte_at ?P1 a = ?pg ! (a - s)"
      using byte_at_upd_page[OF s(1) s(4) a, of P ?pg] unfolding pgi by simp
    have lt1: "length (take m ?old) = m" and lt2: "length (take r data) = r"
      using m r lold by simp_all
    consider (lo) "a < ofs" | (mid) "ofs \<le> a \<and> a < ofs + r" | (hi) "ofs + r \<le> a"
      by linarith
    then show ?thesis
    proof cases
      case lo
      then have i: "a - s < m"
        using True s(3) by linarith
      have "?pg ! (a - s) = ?old ! (a - s)"
        unfolding pg using i lt1 by (simp add: nth_append)
      then show ?thesis
        using up lo old[OF True] by auto
    next
      case mid
      then have i: "m \<le> a - s" "a - s - m < r" "a - s - m = a - ofs"
        using True s(3) by linarith+
      have "?pg ! (a - s) = (take r data @ drop (m + r) ?old) ! (a - s - m)"
        unfolding pg using i(1) lt1 by (simp add: nth_append)
      also have "\<dots> = take r data ! (a - s - m)"
        using i(2) lt2 by (simp add: nth_append)
      also have "\<dots> = data ! (a - ofs)"
        using i(2,3) by simp
      finally show ?thesis
        using up mid by auto
    next
      case hi
      then have i: "m \<le> a - s" "r \<le> a - s - m" "a - s < 16"
        using True s(3) by linarith+
      have "?pg ! (a - s) = (take r data @ drop (m + r) ?old) ! (a - s - m)"
        unfolding pg using i(1) lt1 by (simp add: nth_append)
      also have "\<dots> = drop (m + r) ?old ! (a - s - m - r)"
        using i(2) lt2 by (simp add: nth_append)
      also have "\<dots> = ?old ! (m + r + (a - s - m - r))"
        using r(1) lold by simp
      also have "m + r + (a - s - m - r) = a - s"
        using i by linarith
      finally show ?thesis
        using up hi old[OF True] by auto
    qed
  next
    case False
    then have "byte_at ?P1 a = byte_at P a"
      using byte_at_upd_page[OF s(1) s(4) a, of P ?pg] unfolding pgi by auto
    moreover have "\<not> (ofs \<le> a \<and> a < ofs + r)"
      using False r(1) s(3) by linarith
    ultimately show ?thesis
      by auto
  qed
  have unf: "write_raw_store P offset len data =
      write_raw_pages_store ?P1 (offset + of_nat r) (len - of_nat r) data r"
    using False by (simp add: write_raw_store_def Let_def and15 r_def m_def ofs_def n_def)
  have goal: "wf_store R \<and>
         (\<forall>a<4096. byte_at R a =
            (if unat offset \<le> a \<and> a < unat offset + unat len
             then data ! (a - unat offset) else byte_at P a))"
    if "wf_store R" and "\<And>a. a < 4096 \<Longrightarrow> byte_at R a =
            (if ofs \<le> a \<and> a < ofs + n then data ! (a - ofs) else byte_at P a)" for R
    using that unfolding ofs_def n_def by blast
  show ?thesis
  proof (cases "16 - m < n")
    case short: False
    then have rn: "r = n"
      by (simp add: r_def)
    then have "len - of_nat r = 0"
      by (simp add: n_def)
    then have res: "write_raw_store P offset len data = ?P1"
      unfolding unf by (simp add: write_raw_pages_store_zero)
    show ?thesis
      unfolding res using wf1 b1 rn by (intro goal) auto
  next
    case True
    then have r': "r = 16 - m" "r < n" "r < 16" "m + r = 16"
      using m by (simp_all add: r_def)
    have ur: "unat (of_nat r :: byte) = r"
      using r'(3) by (simp add: unat_of_nat)
    have lt: "ofs + r < 256"
      using r'(2) bnd by linarith
    have o': "unat (offset + of_nat r) = ofs + r"
      using lt by (simp add: unat_word_ariths ur ofs_def)
    have le: "(of_nat r :: byte) \<le> len"
      using r'(2) by (simp add: word_le_nat_alt ur n_def)
    have n': "unat (len - of_nat r) = n - r"
      using le by (simp add: unat_sub ur n_def)
    have "(s + (m + r)) mod 16 = 0"
      using s(1) r'(4) by simp
    moreover have "s + (m + r) = ofs + r"
      using s(3) by linarith
    ultimately have "(ofs + r) mod 16 = 0"
      by simp
    then have al': "unat (offset + of_nat r) mod 16 = 0"
      unfolding o' .
    have bound': "unat (offset + of_nat r) + unat (len - of_nat r) \<le> 256"
      using r'(2) bnd unfolding o' n' by simp
    have len': "r + unat (len - of_nat r) \<le> length data"
      using r'(2) ln unfolding n' by simp
    let ?R = "write_raw_pages_store ?P1 (offset + of_nat r) (len - of_nat r) data r"
    have loop: "wf_store ?R \<and>
        (\<forall>a<4096. byte_at ?R a =
           (if ofs + r \<le> a \<and> a < ofs + r + (n - r)
            then data ! (r + (a - (ofs + r))) else byte_at ?P1 a))"
      using write_raw_pages_store_window[OF wf1 al' bound' len'] unfolding o' n' .
    have "byte_at ?R a =
        (if ofs \<le> a \<and> a < ofs + n then data ! (a - ofs) else byte_at P a)"
      if a: "a < 4096" for a
    proof (cases "ofs + r \<le> a \<and> a < ofs + n")
      case True
      then have "byte_at ?R a = data ! (r + (a - (ofs + r)))"
        using loop a r'(2) by auto
      moreover have "r + (a - (ofs + r)) = a - ofs"
        using True by linarith
      ultimately show ?thesis
        using True by auto
    next
      case False
      then have "byte_at ?R a = byte_at ?P1 a"
        using loop a r'(2) by auto
      moreover have "(ofs \<le> a \<and> a < ofs + n) = (ofs \<le> a \<and> a < ofs + r)"
        using False r'(2) by linarith
      ultimately show ?thesis
        using b1[OF a] by simp
    qed
    then show ?thesis
      unfolding unf using loop by (intro goal) auto
  qed
qed

lemma raw_byte_byte_at: "raw_byte w a = byte_at (pages w) a"
  by (simp add: raw_byte_def byte_at_def)

lemma raw_bytes_byte_at: "raw_bytes w a n = map (byte_at (pages w)) [a ..< a + n]"
  by (simp add: raw_bytes_def raw_byte_byte_at)

theorem read_raw_within_256:
  assumes "fault_free w" and "wf_store (pages w)"
    and "unat offset + unat len \<le> 256" and "length data = unat len"
  shows "fst (nt3h2111_read_raw w offset len data) = ESP_OK \<and>
         fst (snd (nt3h2111_read_raw w offset len data)) = raw_bytes w (unat offset) (unat len) \<and>
         pages (snd (snd (nt3h2111_read_raw w offset len data))) = pages w"
  using read_raw_fault_free[OF assms(1), of offset len data]
        read_raw_store_window[OF assms(2,3,4)]
  by (simp add: raw_bytes_byte_at)

theorem write_raw_within_256:
  assumes ff: "fault_free w" and wf: "wf_store (pages w)"
    and bound: "unat offset + unat len \<le> 256"
    and len: "length data = unat len" and buf: "length buf = unat len"
  shows "fst (nt3h2111_write_raw w offset len data) = ESP_OK \<and>
         (\<forall>a<4096. raw_byte (snd (nt3h2111_write_raw w offset len data)) a =
            (if unat offset \<le> a \<and> a < unat offset + unat len
             then data ! (a - unat offset) else raw_byte w a)) \<and>
         fst (nt3h2111_read_raw (snd (nt3h2111_write_raw w offset len data)) offset len buf) = ESP_OK \<and>
         fst (snd (nt3h2111_read_raw (snd (nt3h2111_write_raw w offset len data)) offset len buf)) = data"
proof -
  let ?w' = "snd (nt3h2111_write_raw w offset len data)"
  let ?o = "unat offset" and ?n = "unat len"
  have wr: "fst (nt3h2111_write_raw w offset len data) = ESP_OK"
    and p: "pages ?w' = write_raw_store (pages w) offset len data"
    and e: "same_env w ?w'"
    using write_raw_fault_free[OF ff, of offset len data] by simp_all
  have win: "wf_store (pages ?w')"
    "\<forall>a<4096. byte_at (pages ?w') a =
       (if ?o \<le> a \<and> a < ?o + ?n then data ! (a - ?o) else byte_at (pages w) a)"
    using write_raw_store_window[OF wf bound, of data] len unfolding p by simp_all
  have ff': "fault_free ?w'"
    using e ff by (rule same_env_fault_free)
  have rd: "fst (nt3h2111_read_raw ?w' offset len buf) = ESP_OK"
    "fst (snd (nt3h2111_read_raw ?w' offset len buf)) = raw_bytes ?w' ?o ?n"
    using read_raw_within_256[OF ff' win(1) bound buf] by simp_all
  have "raw_bytes ?w' ?o ?n = data"
  proof (rule nth_equalityI)
    show "length (raw_bytes ?w' ?o ?n) = length data"
      using len by (simp add: raw_bytes_def)
  next
    fix i assume "i < length (raw_bytes ?w' ?o ?n)"
    then have i: "i < ?n"
      by (simp add: raw_bytes_def)
    then have "?o + i < 4096"
      using bound by linarith
    then have "byte_at (pages ?w') (?o + i) = data ! i"
      using win(2) i by simp
    then show "raw_bytes ?w' ?o ?n ! i = data ! i"
      using i by (simp add: raw_bytes_byte_at)
  qed
  then show ?thesis
    using wr win(2) rd by (simp add: raw_byte_byte_at)
qed

section \<open>NDEF payloads that stay within the first 256 bytes\<close>

text \<open>
  A payload of at most 237 bytes takes the short header, and header, payload and
  terminator end at raw offset 255 or before.  On a well-formed store, a bus that never
  fails and an allocator that grants the buffer, encoding and then decoding returns the
  payload.
\<close>

lemma ndef_store_roundtrip_short:
  assumes wf: "wf_store P" and len: "length data = len" and short: "len \<le> 237"
    and alloc: "alloc len = Some buf" and lbuf: "length buf = len"
  shows "get_ndef_store (set_ndef_store P len data) alloc = (ESP_OK, Some (len, data))"
proof -
  define hdr :: "byte list" where "hdr = [0x03, of_nat len, 0, 0]"
  define l8 :: byte where "l8 = of_nat len"
  have ul: "unat l8 = len"
    using short by (simp add: l8_def unat_of_nat)
  have l8ff: "l8 \<noteq> 0xff"
  proof
    assume "l8 = 0xff"
    then have "unat l8 = 255" by simp
    then show False using ul short by simp
  qed
  define P1 where "P1 = write_raw_store P 16 2 hdr"
  define P2 where "P2 = (if len = 0 then P1 else write_raw_store P1 18 l8 data)"
  define t :: byte where "t = of_nat (18 + len)"
  have ut: "unat t = 18 + len"
    unfolding t_def using short by (subst unat_of_nat) simp
  define P3 where "P3 = write_raw_store P2 t 1 [0xfe, of_nat len, 0, 0]"
  have u2: "unat (of_nat (2 + len) :: 16 word) = 2 + len"
    using short by (subst unat_of_nat) simp
  have l0: "l8 = 0 \<longleftrightarrow> len = 0"
    using ul by (metis unat_0 unat_eq_zero)
  have tt: "(of_nat (16 + (2 + len)) :: byte) = t"
    by (simp add: t_def)
  have sn: "set_ndef_store P len data = P3"
    using short u2 ul l0 tt
    by (simp add: set_ndef_store_def write_user_store_def NT3H2111_USERDATA_LEN_def
          P3_def P2_def P1_def hdr_def l8_def)
  have w1: "wf_store P1"
    and b1: "\<And>a. a < 4096 \<Longrightarrow> byte_at P1 a = (if 16 \<le> a \<and> a < 18 then hdr ! (a - 16) else byte_at P a)"
    using write_raw_store_window[OF wf, of 16 2 hdr] by (simp_all add: P1_def hdr_def)
  have w2: "wf_store P2"
    and b2: "\<And>a. a < 4096 \<Longrightarrow> byte_at P2 a =
        (if 18 \<le> a \<and> a < 18 + len then data ! (a - 18) else byte_at P1 a)"
  proof -
    show "wf_store P2"
      using w1 write_raw_store_window[OF w1, of 18 l8 data] ul len short
      by (simp add: P2_def)
    show "byte_at P2 a = (if 18 \<le> a \<and> a < 18 + len then data ! (a - 18) else byte_at P1 a)"
      if "a < 4096" for a
    proof (cases "len = 0")
      case True
      then show ?thesis by (auto simp: P2_def)
    next
      case False
      then show ?thesis
        using write_raw_store_window[OF w1, of 18 l8 data] ul len short that
        by (auto simp: P2_def)
    qed
  qed
  have w3: "wf_store P3"
    and b3: "\<And>a. a < 4096 \<Longrightarrow> byte_at P3 a =
        (if 18 + len \<le> a \<and> a < 18 + len + 1 then [0xfe, of_nat len, 0, 0] ! (a - (18 + len))
         else byte_at P2 a)"
    using write_raw_store_window[OF w2, of t 1 "[0xfe, of_nat len, 0, 0]"] ut short
    by (simp_all add: P3_def)
  have h0: "P3 1 ! 0 = 0x03"
  proof -
    have "byte_at P3 16 = hdr ! 0"
      using b3[of 16] b2[of 16] b1[of 16] by simp
    then show ?thesis by (simp add: byte_at_def hdr_def)
  qed
  have h1: "P3 1 ! 1 = l8"
  proof -
    have "byte_at P3 17 = hdr ! 1"
      using b3[of 17] b2[of 17] b1[of 17] by simp
    then show ?thesis by (simp add: byte_at_def hdr_def l8_def)
  qed
  have pay: "map (byte_at P3) [18 ..< 18 + len] = data"
  proof (rule nth_equalityI)
    show "length (map (byte_at P3) [18 ..< 18 + len]) = length data"
      using len by simp
  next
    fix i assume "i < length (map (byte_at P3) [18 ..< 18 + len])"
    then have i: "i < len" by simp
    then have "byte_at P3 (18 + i) = data ! i"
      using b3[of "18 + i"] b2[of "18 + i"] short by simp
    then show "map (byte_at P3) [18 ..< 18 + len] ! i = data ! i"
      using i by simp
  qed
  have rd: "read_user_store P3 2 l8 buf = (ESP_OK, data)"
  proof (cases "len = 0")
    case True
    then show ?thesis
      using l0 len lbuf by (simp add: read_user_store_def)
  next
    case False
    have "read_raw_store P3 18 l8 buf = map (byte_at P3) [18 ..< 18 + len]"
      using read_raw_store_window[OF w3, of 18 l8 buf] ul lbuf short by simp
    then show ?thesis
      using False l0 ul short pay
      by (simp add: read_user_store_def NT3H2111_USERDATA_LEN_def)
  qed
  show ?thesis
    unfolding sn using h0 h1 l8ff ul alloc rd
    by (simp add: get_ndef_store_def Let_def l8_def ESP_OK_def)
qed

theorem ndef_roundtrip_short:
  assumes ff: "fault_free w" and wf: "wf_store (pages w)"
    and len: "length data = len" and short: "len \<le> 237" and ok: "malloc_ok w len"
  shows "fst (nt3h2111_set_ndef w len data) = ESP_OK \<and>
         fst (nt3h2111_get_ndef (snd (nt3h2111_set_ndef w len data))) = ESP_OK \<and>
         fst (snd (nt3h2111_get_ndef (snd (nt3h2111_set_ndef w len data)))) = Some (len, data)"
proof -
  have a: "malloc w len = Some (map (heap_junk w) [0..<len])"
    using ok by (simp add: malloc_def)
  have b: "length (map (heap_junk w) [0..<len]) = len"
    by simp
  have "len < 880"
    using short by simp
  from ndef_roundtrip_store[OF ff this, of data]
       ndef_store_roundtrip_short[of "pages w" data len "malloc w", OF wf len short a b]
  show ?thesis
    by simp
qed

section \<open>Where the region functions really go\<close>

text \<open>
  The raw offset handed to the translator is the low byte of \<open>16 + offset\<close> or of
  \<open>3968 + offset\<close>.  For SRAM that is always \<open>128 + offset\<close>: every in-range SRAM access
  goes to pages 8 to 11.  For user memory the raw offset is right as long as the access
  ends at user offset 240 or before.
\<close>

lemma sram_goes_to_raw_128:
  assumes "len \<noteq> 0" and "unat soff + unat len \<le> 64"
  shows "nt3h2111_read_sram w soff len data = nt3h2111_read_raw w (128 + soff) len data"
    and "nt3h2111_write_sram w soff len data = nt3h2111_write_raw w (128 + soff) len data"
proof -
  have "(3968::byte) = 128"
    by simp
  then have "(of_nat (248 * 16 + unat soff) :: byte) = 128 + soff"
    by simp
  then show "nt3h2111_read_sram w soff len data = nt3h2111_read_raw w (128 + soff) len data"
    and "nt3h2111_write_sram w soff len data = nt3h2111_write_raw w (128 + soff) len data"
    using assms
    by (simp_all only: nt3h2111_read_sram_def nt3h2111_write_sram_def NT3H2111_SRAM_LEN_def
          if_False not_less [symmetric])
qed

lemma read_user_within_240:
  assumes ff: "fault_free w" and wf: "wf_store (pages w)"
    and bound: "unat uoff + unat len \<le> 240" and len: "length data = unat len"
  shows "fst (nt3h2111_read_user w uoff len data) = ESP_OK \<and>
         fst (snd (nt3h2111_read_user w uoff len data)) = raw_bytes w (16 + unat uoff) (unat len)"
proof (cases "len = 0")
  case True
  then show ?thesis
    using len by (simp add: nt3h2111_read_user_def raw_bytes_def)
next
  case False
  define ro :: byte where "ro = of_nat (16 + unat uoff)"
  have pos: "0 < unat len"
    using False by (simp add: unat_gt_0)
  have uro: "unat ro = 16 + unat uoff"
    unfolding ro_def using bound pos by (subst unat_of_nat) simp
  have "unat ro + unat len \<le> 256"
    using bound uro by simp
  from read_raw_within_256[OF ff wf this len]
  show ?thesis
    using False bound uro
    by (simp add: nt3h2111_read_user_def NT3H2111_USERDATA_LEN_def ro_def)
qed

section \<open>The claims\<close>

subsection \<open>C1: raw reads\<close>

text \<open>
  C1.  The claim: for every offset and length with \<open>offset + length \<le> 4096\<close>, a raw read
  returns the bytes at positions \<open>offset ..< offset + length\<close> of the page store.

  The offset parameter of \<^verbatim>\<open>nt3h2111_read_raw\<close> is a \<^verbatim>\<open>uint8_t\<close>, and the cursor wraps at
  256.  On the store whose page \<open>p\<close> holds sixteen times the byte \<open>p\<close>, a read of 20 bytes at
  offset 250 succeeds, reads pages 15 and 0, and returns six bytes of page 15 followed by
  fourteen bytes of page 0, where the store has fourteen bytes of page 16.  The callers
  are hit as well: \<^verbatim>\<open>nt3h2111_read_user\<close> at user offset 300 (raw 316, page 19) returns bytes
  of page 3, and \<^verbatim>\<open>nt3h2111_read_sram\<close> at SRAM offset 0 (raw 3968, page 248) returns bytes
  of page 8.  As long as \<open>offset + length \<le> 256\<close> the read is right
  (\<open>read_raw_within_256\<close>).
\<close>

theorem read_raw_wraps_at_256:
  "fst (nt3h2111_read_raw marked 250 20 (replicate 20 0)) = ESP_OK \<and>
   fst (snd (nt3h2111_read_raw marked 250 20 (replicate 20 0))) =
     [15, 15, 15, 15, 15, 15, 0, 0, 0, 0, 0, 0, 0, 0, 0, 0, 0, 0, 0, 0] \<and>
   raw_bytes marked 250 20 =
     [15, 15, 15, 15, 15, 15, 16, 16, 16, 16, 16, 16, 16, 16, 16, 16, 16, 16, 16, 16] \<and>
   map fst (trace (snd (snd (nt3h2111_read_raw marked 250 20 (replicate 20 0))))) =
     [BusRead 15, BusRead 0] \<and>
   fst (snd (nt3h2111_read_user marked 300 4 [0, 0, 0, 0])) = [3, 3, 3, 3] \<and>
   raw_bytes marked (16 + 300) 4 = [19, 19, 19, 19] \<and>
   fst (snd (nt3h2111_read_sram marked 0 4 [0, 0, 0, 0])) = [8, 8, 8, 8] \<and>
   raw_bytes marked (248 * 16 + 0) 4 = [248, 248, 248, 248]"
  by (simp add: driver_defs replicate_numeral_Cons upt_rec)

subsection \<open>C2: raw writes\<close>

text \<open>
  C2.  The claim: a raw write followed by a raw read of the same range returns the data,
  and every byte of the page store outside \<open>offset ..< offset + length\<close> keeps its value.

  A write of 20 bytes \<open>0xAA\<close> at offset 250 succeeds and wraps in the same way: raw byte 0,
  which is outside \<open>250 ..< 270\<close>, changes from \<open>0\<close> to \<open>0xAA\<close> (page 0 holds the device
  header), and raw byte 256, which is inside the range, keeps its old value 16.  As long
  as \<open>offset + length \<le> 256\<close> both halves of the claim hold (\<open>write_raw_within_256\<close>).
\<close>

theorem write_raw_wraps_at_256:
  "fst (nt3h2111_write_raw marked 250 20 (replicate 20 0xAA)) = ESP_OK \<and>
   raw_byte marked 0 = 0 \<and>
   raw_byte (snd (nt3h2111_write_raw marked 250 20 (replicate 20 0xAA))) 0 = 0xAA \<and>
   (0::nat) \<notin> {250 ..< 250 + 20} \<and>
   raw_byte marked 256 = 16 \<and>
   raw_byte (snd (nt3h2111_write_raw marked 250 20 (replicate 20 0xAA))) 256 = 16 \<and>
   (256::nat) \<in> {250 ..< 250 + 20}"
  by (simp add: driver_defs replicate_numeral_Cons)

subsection \<open>C3: zero-length calls\<close>

text \<open>
  C3.  The claim: every read or write with length 0, raw reads and writes at any offset
  included, performs no bus transaction and returns success.

  It fails for the raw functions at an offset that is not a multiple of 16: with length 0
  at offset 5, \<^verbatim>\<open>nt3h2111_read_raw\<close> reads page 0, and \<^verbatim>\<open>nt3h2111_write_raw\<close> reads page 0
  and writes it back.
\<close>

theorem raw_zero_length_touches_bus:
  "trace blank = [] \<and>
   map fst (trace (snd (snd (nt3h2111_read_raw blank 5 0 [])))) = [BusRead 0] \<and>
   map fst (trace (snd (nt3h2111_write_raw blank 5 0 []))) =
     [BusRead 0, BusWrite 0 [0, 0, 0, 0, 0, 0, 0, 0, 0, 0, 0, 0, 0, 0, 0, 0]]"
  by (simp add: driver_defs)

text \<open>
  C3, amended.  A zero-length call to one of the four region functions returns \<open>ESP_OK\<close>
  and leaves buffer and world untouched, at every offset.  A zero-length raw read or write
  does so when the offset is a multiple of 16.  At any other offset the raw read issues
  exactly one bus transaction, a read of the covering page, and the raw write issues at
  least one.
\<close>

theorem zero_length_bus_activity:
  "nt3h2111_read_user w uoff 0 data = (ESP_OK, data, w) \<and>
   nt3h2111_write_user w uoff 0 data = (ESP_OK, w) \<and>
   nt3h2111_read_sram w soff 0 data = (ESP_OK, data, w) \<and>
   nt3h2111_write_sram w soff 0 data = (ESP_OK, w) \<and>
   (offset AND 15 = 0 \<longrightarrow>
      nt3h2111_read_raw w offset 0 data = (ESP_OK, data, w) \<and>
      nt3h2111_write_raw w offset 0 data = (ESP_OK, w)) \<and>
   (offset AND 15 \<noteq> 0 \<longrightarrow>
      map fst (trace (snd (snd (nt3h2111_read_raw w offset 0 data)))) =
        map fst (trace w) @ [BusRead (offset div 16)] \<and>
      length (trace w) < length (trace (snd (nt3h2111_write_raw w offset 0 data))))"
proof -
  have region: "nt3h2111_read_user w uoff 0 data = (ESP_OK, data, w)"
    "nt3h2111_write_user w uoff 0 data = (ESP_OK, w)"
    "nt3h2111_read_sram w soff 0 data = (ESP_OK, data, w)"
    "nt3h2111_write_sram w soff 0 data = (ESP_OK, w)"
    by (simp_all add: nt3h2111_read_user_def nt3h2111_write_user_def nt3h2111_read_sram_def
          nt3h2111_write_sram_def)
  have rp0: "read_raw_pages v off 0 d n = (ESP_OK, d, v)" for v off d n
    by (subst read_raw_pages.simps) simp
  have wp0: "write_raw_pages v off 0 d n = (ESP_OK, v)" for v off d n
    by (subst write_raw_pages.simps) simp
  have aligned: "nt3h2111_read_raw w offset 0 data = (ESP_OK, data, w) \<and>
      nt3h2111_write_raw w offset 0 data = (ESP_OK, w)" if "offset AND 15 = 0"
    using that by (simp add: nt3h2111_read_raw_def nt3h2111_write_raw_def rp0 wp0)
  have misaligned: "map fst (trace (snd (snd (nt3h2111_read_raw w offset 0 data)))) =
        map fst (trace w) @ [BusRead (offset div 16)] \<and>
      length (trace w) < length (trace (snd (nt3h2111_write_raw w offset 0 data)))"
    if m: "offset AND 15 \<noteq> 0"
  proof -
    let ?p = "offset div 16"
    have mis: "unat (offset AND 15) \<noteq> 0"
      using m by (simp add: unat_eq_0)
    obtain r w1 where rp: "nt3h2111_read_page w ?p = (r, w1)"
      by (cases "nt3h2111_read_page w ?p")
    have t1: "trace w1 =
        trace w @ [(BusRead ?p, now (wait_eeprom w), now (wait_eeprom w) + int (bus_us w))]"
      using read_page_world(3)[of w ?p] rp by simp
    have rd: "snd (snd (nt3h2111_read_raw w offset 0 data)) = w1"
      using mis rp by (cases r) (simp_all add: nt3h2111_read_raw_def Let_def rp0)
    have wr: "length (trace w) < length (trace (snd (nt3h2111_write_raw w offset 0 data)))"
    proof (cases r)
      case (Inl e)
      then show ?thesis
        using mis rp t1 by (simp add: nt3h2111_write_raw_def Let_def)
    next
      case (Inr tmp)
      let ?d = "memcpy tmp (unat (offset AND 15)) data 0 0"
      obtain res w2 where wp: "nt3h2111_write_page w1 ?p ?d = (res, w2)"
        by (cases "nt3h2111_write_page w1 ?p ?d")
      have t2: "length (trace w2) = Suc (length (trace w1))"
        using write_page_world(3)[of w1 ?p ?d] wp by simp
      have "snd (nt3h2111_write_raw w offset 0 data) = w2"
        using mis rp Inr wp by (simp add: nt3h2111_write_raw_def Let_def wp0)
      then show ?thesis
        using t1 t2 by simp
    qed
    show ?thesis
      using rd t1 wr by simp
  qed
  show ?thesis
    using region aligned misaligned by blast
qed

theorem zero_length_bus_activity_witness:
  "nt3h2111_read_user blank 2000 0 [] = (ESP_OK, [], blank) \<and>
   nt3h2111_write_user blank 2000 0 [] = (ESP_OK, blank) \<and>
   nt3h2111_read_sram blank 200 0 [] = (ESP_OK, [], blank) \<and>
   nt3h2111_write_sram blank 200 0 [] = (ESP_OK, blank) \<and>
   nt3h2111_read_raw blank 32 0 [] = (ESP_OK, [], blank) \<and>
   nt3h2111_write_raw blank 32 0 [] = (ESP_OK, blank) \<and>
   map fst (trace (snd (snd (nt3h2111_read_raw blank 37 0 [])))) = [BusRead 2] \<and>
   0 < length (trace (snd (nt3h2111_write_raw blank 37 0 [])))"
proof -
  have a: "(32::byte) AND 15 = 0" and b: "(37::byte) AND 15 \<noteq> 0" and c: "(37::byte) div 16 = 2"
    by simp_all
  have t: "trace blank = []"
    by (simp add: blank_def)
  show ?thesis
    using zero_length_bus_activity[of blank 2000 "[]" 200 32]
          zero_length_bus_activity[of blank 2000 "[]" 200 37] a b c t
    by simp
qed

subsection \<open>C4: the serial number\<close>

text \<open>
  C4.  The claim: \<^verbatim>\<open>nt3h2111_get_serial\<close> returns the 48-bit little-endian value of the six
  bytes at raw offsets 1 to 6.

  \<^verbatim>\<open>read_uint48\<close> accumulates in a \<^verbatim>\<open>uint32_t\<close>.  On a chip whose bytes 1 to 6 are
  11 22 33 44 55 66 the 48-bit value is \<open>0x665544332211\<close>; the driver returns the low four
  bytes combined with whatever the two over-wide shifts produce, cut to 32 bits, which
  differs from the 48-bit value for every behaviour \<open>ub\<close> of those shifts.
\<close>

theorem get_serial_drops_high_bytes:
  "fst (nt3h2111_get_serial (serial_chip\<lparr>wide_shift := ub\<rparr>)) = ESP_OK \<and>
   fst (snd (nt3h2111_get_serial (serial_chip\<lparr>wide_shift := ub\<rparr>))) =
     Some (ucast ((0x44332211 OR ub 0x55 32) OR ub 0x66 40)) \<and>
   raw_bytes serial_chip 1 6 = [0x11, 0x22, 0x33, 0x44, 0x55, 0x66] \<and>
   le48 (raw_bytes serial_chip 1 6) = 0x665544332211 \<and>
   fst (snd (nt3h2111_get_serial (serial_chip\<lparr>wide_shift := ub\<rparr>))) \<noteq> Some 0x665544332211"
proof -
  let ?w = "serial_chip\<lparr>wide_shift := ub\<rparr>"
  have ev: "fst (nt3h2111_get_serial ?w) = ESP_OK \<and>
      fst (snd (nt3h2111_get_serial ?w)) =
        Some (ucast ((0x44332211 OR ub 0x55 32) OR ub 0x66 40)) \<and>
      raw_bytes serial_chip 1 6 = [0x11, 0x22, 0x33, 0x44, 0x55, 0x66] \<and>
      le48 (raw_bytes serial_chip 1 6) = 0x665544332211"
    by (simp add: driver_defs upt_rec)
  have ne: "fst (snd (nt3h2111_get_serial ?w)) \<noteq> Some 0x665544332211"
  proof
    assume "fst (snd (nt3h2111_get_serial ?w)) = Some 0x665544332211"
    from get_serial_below[OF this] show False by simp
  qed
  show ?thesis
    using ev ne by blast
qed

subsection \<open>C5: NDEF round trip\<close>

text \<open>
  C5.  The claim: for payload lengths 0, 1, 254, 255 and 879, encoding and then decoding
  succeeds and returns the payload.

  On a blank chip and a bus that never fails, with every allocation granted, the encoder
  returns \<open>ESP_OK\<close> for all of them, but:
  \<^item> length 254: the payload runs past raw offset 255, the cursor wraps, page 0 is
    overwritten, and the terminator lands on the magic byte; the decoder returns
    \<open>ESP_ERR_NOT_FOUND\<close>;
  \<^item> length 255: the wrapped payload overwrites the header; the decoder returns
    \<open>ESP_ERR_NOT_FOUND\<close>;
  \<^item> length 879: the length is cut to \<^verbatim>\<open>uint8_t\<close> (111) in both the payload write and the
    payload read; the decoder returns \<open>ESP_OK\<close> and a buffer of 879 bytes of which only
    the first 111 come from the payload.
  Length 1 does make the round trip, as every length up to 237 does when the allocation
  is granted (\<open>ndef_roundtrip_short\<close>).
\<close>

theorem ndef_roundtrip_fails_for_long_payloads:
  "fst (nt3h2111_set_ndef blank 254 (replicate 254 0x41)) = ESP_OK \<and>
   fst (nt3h2111_get_ndef (snd (nt3h2111_set_ndef blank 254 (replicate 254 0x41)))) =
     ESP_ERR_NOT_FOUND \<and>
   fst (nt3h2111_set_ndef blank 255 (replicate 255 0x41)) = ESP_OK \<and>
   fst (nt3h2111_get_ndef (snd (nt3h2111_set_ndef blank 255 (replicate 255 0x41)))) =
     ESP_ERR_NOT_FOUND \<and>
   fst (nt3h2111_set_ndef blank 879 (replicate 879 0x41)) = ESP_OK \<and>
   fst (nt3h2111_get_ndef (snd (nt3h2111_set_ndef blank 879 (replicate 879 0x41)))) = ESP_OK \<and>
   fst (snd (nt3h2111_get_ndef (snd (nt3h2111_set_ndef blank 879 (replicate 879 0x41))))) =
     Some (879, replicate 111 0x41 @ replicate 768 0) \<and>
   fst (nt3h2111_set_ndef blank 1 [0x41]) = ESP_OK \<and>
   fst (nt3h2111_get_ndef (snd (nt3h2111_set_ndef blank 1 [0x41]))) = ESP_OK \<and>
   fst (snd (nt3h2111_get_ndef (snd (nt3h2111_set_ndef blank 1 [0x41])))) = Some (1, [0x41])"
proof -
  have a: "fst (get_ndef_store (set_ndef_store (pages blank) 254 (replicate 254 0x41))
                  (malloc blank)) = ESP_ERR_NOT_FOUND"
    by (simp add: store_defs blank_def)
  have b: "fst (get_ndef_store (set_ndef_store (pages blank) 255 (replicate 255 0x41))
                  (malloc blank)) = ESP_ERR_NOT_FOUND"
    by (simp add: store_defs blank_def)
  have c: "get_ndef_store (set_ndef_store (pages blank) 879 (replicate 879 0x41)) (malloc blank) =
      (ESP_OK, Some (879, replicate 111 0x41 @ replicate 768 0))"
    apply (simp add: store_defs malloc_blank)
    apply (simp add: blank_def replicate_append_same)
    done
  have d: "get_ndef_store (set_ndef_store (pages blank) 1 [0x41]) (malloc blank) =
      (ESP_OK, Some (1, [0x41]))"
    by (simp add: store_defs malloc_blank)
  show ?thesis
    using ndef_roundtrip_store[OF fault_free_blank, of 254 "replicate 254 0x41"]
          ndef_roundtrip_store[OF fault_free_blank, of 255 "replicate 255 0x41"]
          ndef_roundtrip_store[OF fault_free_blank, of 879 "replicate 879 0x41"]
          ndef_roundtrip_store[OF fault_free_blank, of 1 "[0x41]"]
          a b c d
    by simp
qed

subsection \<open>C6: a failing payload write\<close>

text \<open>
  C6.  The claim: when the header write succeeds and the payload write fails,
  \<^verbatim>\<open>nt3h2111_set_ndef\<close> returns the payload write's error.

  On a bus whose third transaction fails, encoding a one-byte payload: the header write
  (transactions 0 and 1) returns \<open>ESP_OK\<close>, the payload write (transaction 2) returns
  \<open>ESP_FAIL\<close>, and \<^verbatim>\<open>nt3h2111_set_ndef\<close> returns \<open>ESP_OK\<close>; page 1 then holds the header and
  the terminator but not the payload byte.
\<close>

theorem set_ndef_hides_payload_error:
  "fst (nt3h2111_write_user (failing_at 2) 0 2 [0x03, 0x01, 0, 0]) = ESP_OK \<and>
   fst (nt3h2111_write_user (snd (nt3h2111_write_user (failing_at 2) 0 2 [0x03, 0x01, 0, 0]))
          2 1 [0x41]) = ESP_FAIL \<and>
   fst (nt3h2111_set_ndef (failing_at 2) 1 [0x41]) = ESP_OK \<and>
   pages (snd (nt3h2111_set_ndef (failing_at 2) 1 [0x41])) 1 =
     [0x03, 0x01, 0, 0xfe, 0, 0, 0, 0, 0, 0, 0, 0, 0, 0, 0, 0] \<and>
   ESP_FAIL \<noteq> ESP_OK"
  by (simp add: driver_defs)

subsection \<open>C7: a failing header read\<close>

text \<open>
  C7.  The claim: when the read of page 1 fails, \<^verbatim>\<open>nt3h2111_get_ndef\<close> fails with that bus
  error and does not interpret the header bytes.

  On a bus whose first transaction fails with \<open>ESP_FAIL\<close>, the page read returns
  \<open>ESP_FAIL\<close>, and \<^verbatim>\<open>nt3h2111_get_ndef\<close> goes on to test the uninitialised array: it returns
  \<open>ESP_ERR_NOT_FOUND\<close> when the stack holds zeros, and \<open>ESP_OK\<close> with one byte of data when
  the stack holds 03 01.
\<close>

theorem get_ndef_ignores_page_read_error:
  "fst (nt3h2111_read_page (failing_at 0) 1) = Inl ESP_FAIL \<and>
   fst (nt3h2111_get_ndef (failing_at 0)) = ESP_ERR_NOT_FOUND \<and>
   fst (nt3h2111_get_ndef ((failing_at 0)\<lparr>stack_junk := stale_header\<rparr>)) = ESP_OK \<and>
   fst (snd (nt3h2111_get_ndef ((failing_at 0)\<lparr>stack_junk := stale_header\<rparr>))) = Some (1, [0]) \<and>
   ESP_FAIL \<noteq> ESP_ERR_NOT_FOUND \<and> ESP_FAIL \<noteq> ESP_OK"
  by (simp add: driver_defs upt_rec)

subsection \<open>C8: region bounds and forwarding\<close>

text \<open>
  C8.  The claim: with a nonzero length the region functions fail without bus activity
  when \<open>offset + length\<close> exceeds 884 (user memory) or 64 (SRAM), and otherwise forward to
  the translator at raw offset \<open>16 + offset\<close> or \<open>3968 + offset\<close>.

  The first half holds (lemma \<open>region_bounds_checked\<close>; the write of 10 bytes at user
  offset 880 is refused and the world is unchanged).  The second half does not: the raw
  offset is passed through a \<^verbatim>\<open>uint8_t\<close> parameter.  A one-byte write at SRAM offset 0
  reads and writes page 8 (raw offset 128); raw byte 3968 keeps its value.  Every in-range
  SRAM access is forwarded at raw offset \<open>128 + offset\<close> (\<open>sram_goes_to_raw_128\<close>); user
  reads are forwarded correctly while they end at user offset 240 or before
  (\<open>read_user_within_240\<close>).
\<close>

theorem region_forward_truncates_raw_offset:
  "nt3h2111_write_user marked 880 10 (replicate 10 0xAA) = (ESP_ERR_INVALID_ARG, marked) \<and>
   fst (nt3h2111_write_sram marked 0 1 [0xAA]) = ESP_OK \<and>
   map fst (trace (snd (nt3h2111_write_sram marked 0 1 [0xAA]))) =
     [BusRead 8, BusWrite 8 [0xAA, 8, 8, 8, 8, 8, 8, 8, 8, 8, 8, 8, 8, 8, 8, 8]] \<and>
   raw_byte (snd (nt3h2111_write_sram marked 0 1 [0xAA])) (248 * 16 + 0) = 248 \<and>
   raw_byte (snd (nt3h2111_write_sram marked 0 1 [0xAA])) 128 = 0xAA"
  by (simp add: driver_defs not_16_le_1)

subsection \<open>C9: the write-commit interlock\<close>

text \<open>
  C9.  The claim: of two page writes issued back to back, the second bus transaction
  starts no earlier than 5 milliseconds after the first one completed; the page write
  issues the bus write first and records the time afterwards.

  \<^verbatim>\<open>nt3h2111_write_page\<close> records the time before it issues the bus write.  With a bus
  transaction of 400 microseconds and a scheduler that yields for 100 microseconds, the
  first write runs from 5000 to 5400 and the second starts at 10000: 4600 microseconds
  after the first completed.
\<close>

theorem second_write_starts_early:
  "trace back_to_back =
     [(BusWrite 1 [1, 1, 1, 1, 1, 1, 1, 1, 1, 1, 1, 1, 1, 1, 1, 1], 5000, 5400),
      (BusWrite 1 [2, 2, 2, 2, 2, 2, 2, 2, 2, 2, 2, 2, 2, 2, 2, 2], 10000, 10400)] \<and>
   ev_start (trace back_to_back ! 1) - ev_end (trace back_to_back ! 0) = 4600 \<and>
   (4600::int) < 5000"
  by (simp add: driver_defs)

text \<open>
  C9, amended.  A page write waits until 5000 microseconds have passed since the recorded
  time, records the current time, and then issues the bus write: the recorded time is the
  start of the bus transaction.  Of two page writes issued back to back, the second bus
  transaction starts no earlier than 5000 microseconds after the start of the first.
\<close>

theorem write_page_stamps_before_bus_write:
  "(let w1 = snd (nt3h2111_write_page w p1 d1);
        w2 = snd (nt3h2111_write_page w1 p2 d2);
        s1 = last_write_time w1;
        s2 = last_write_time w2
    in trace w2 =
         trace w @ [(BusWrite p1 d1, s1, s1 + int (bus_us w)),
                    (BusWrite p2 d2, s2, s2 + int (bus_us w))] \<and>
       last_write_time w + 5000 \<le> s1 \<and> s1 + 5000 \<le> s2)"
proof -
  let ?w1 = "snd (nt3h2111_write_page w p1 d1)"
  let ?w2 = "snd (nt3h2111_write_page ?w1 p2 d2)"
  have s1: "last_write_time ?w1 = now (wait_eeprom w)"
    by (rule write_page_world(4))
  have s2: "last_write_time ?w2 = now (wait_eeprom ?w1)"
    by (rule write_page_world(4))
  have b: "bus_us ?w1 = bus_us w"
    using write_page_world(2)[of w p1 d1] by (simp add: same_env_def)
  have t1: "trace ?w1 = trace w @ [(BusWrite p1 d1, last_write_time ?w1,
      last_write_time ?w1 + int (bus_us w))]"
    using write_page_world(3)[of w p1 d1] s1 by simp
  have t2: "trace ?w2 = trace ?w1 @ [(BusWrite p2 d2, last_write_time ?w2,
      last_write_time ?w2 + int (bus_us w))]"
    using write_page_world(3)[of ?w1 p2 d2] s2 b by simp
  have g1: "last_write_time w + 5000 \<le> last_write_time ?w1"
    using wait_eeprom_elapsed[of w] s1 by simp
  have g2: "last_write_time ?w1 + 5000 \<le> last_write_time ?w2"
    using wait_eeprom_elapsed[of ?w1] s2 by simp
  show ?thesis
    unfolding Let_def using t1 t2 g1 g2 by simp
qed

theorem write_page_stamps_before_bus_write_witness:
  "last_write_time blank + 5000 \<le>
     last_write_time (snd (nt3h2111_write_page blank 1 [7])) \<and>
   last_write_time (snd (nt3h2111_write_page blank 1 [7])) + 5000 \<le>
     last_write_time (snd (nt3h2111_write_page (snd (nt3h2111_write_page blank 1 [7])) 2 [8]))"
  using write_page_stamps_before_bus_write[of blank 1 "[7]" 2 "[8]"]
  by (simp add: Let_def)

subsection \<open>C10: zero-length region accesses\<close>

text \<open>
  C10.  A zero-length call to \<^verbatim>\<open>nt3h2111_read_user\<close>, \<^verbatim>\<open>nt3h2111_write_user\<close>,
  \<^verbatim>\<open>nt3h2111_read_sram\<close> or \<^verbatim>\<open>nt3h2111_write_sram\<close> returns \<open>ESP_OK\<close> at once for every
  offset, before the bounds check: the buffer and the whole world (bus trace included) are
  unchanged.  With a nonzero length, an offset that lies outside the region by itself
  (at least 884 for user memory, at least 64 for SRAM) is rejected with
  \<open>ESP_ERR_INVALID_ARG\<close>, again without touching the world.
\<close>

theorem zero_length_skips_bounds_check:
  "nt3h2111_read_user w uoff 0 data = (ESP_OK, data, w) \<and>
   nt3h2111_write_user w uoff 0 data = (ESP_OK, w) \<and>
   nt3h2111_read_sram w soff 0 data = (ESP_OK, data, w) \<and>
   nt3h2111_write_sram w soff 0 data = (ESP_OK, w) \<and>
   (len \<noteq> 0 \<and> 884 \<le> unat uoff \<longrightarrow>
      nt3h2111_read_user w uoff len data = (ESP_ERR_INVALID_ARG, data, w) \<and>
      nt3h2111_write_user w uoff len data = (ESP_ERR_INVALID_ARG, w)) \<and>
   (len \<noteq> 0 \<and> 64 \<le> unat soff \<longrightarrow>
      nt3h2111_read_sram w soff len data = (ESP_ERR_INVALID_ARG, data, w) \<and>
      nt3h2111_write_sram w soff len data = (ESP_ERR_INVALID_ARG, w))"
proof -
  have pos: "0 < unat len" if "len \<noteq> 0"
    using that by (simp add: unat_gt_0)
  show ?thesis
    using pos
    by (auto simp: nt3h2111_read_user_def nt3h2111_write_user_def nt3h2111_read_sram_def
          nt3h2111_write_sram_def NT3H2111_USERDATA_LEN_def NT3H2111_SRAM_LEN_def)
qed

theorem zero_length_skips_bounds_check_witness:
  "nt3h2111_read_user blank 2000 0 [] = (ESP_OK, [], blank) \<and>
   nt3h2111_write_user blank 2000 0 [] = (ESP_OK, blank) \<and>
   nt3h2111_read_sram blank 200 0 [] = (ESP_OK, [], blank) \<and>
   nt3h2111_write_sram blank 200 0 [] = (ESP_OK, blank) \<and>
   nt3h2111_read_user blank 2000 1 [] = (ESP_ERR_INVALID_ARG, [], blank) \<and>
   nt3h2111_write_user blank 2000 1 [] = (ESP_ERR_INVALID_ARG, blank) \<and>
   nt3h2111_read_sram blank 200 1 [] = (ESP_ERR_INVALID_ARG, [], blank) \<and>
   nt3h2111_write_sram blank 200 1 [] = (ESP_ERR_INVALID_ARG, blank) \<and>
   ESP_OK \<noteq> ESP_ERR_INVALID_ARG"
  using zero_length_skips_bounds_check [of blank 2000 "[]" 200 1]
  by (simp add: ESP_OK_def ESP_ERR_INVALID_ARG_def)

end
